theory Spec2Isabelle
  imports Main "HOL-Library.Sublist" "HOL-Library.Word"
begin

unbundle bit_operations_syntax

section \<open>Configuration\<close>

text \<open>
  The configuration types of \<^verbatim>\<open>file-organizer.go\<close>. A Go \<^verbatim>\<open>string\<close> is a sequence of
  bytes, which is what \<^typ>\<open>string\<close> is; the empty string is the value of a field that the
  YAML document leaves out.
\<close>

record Destination =
  Path :: string
  Prefix :: string
  Suffix :: string

record Config =
  DumpDirectory :: string
  Destinations :: "Destination list"

section \<open>Rule matcher\<close>

text \<open>
  \<^verbatim>\<open>strings.HasPrefix(s, prefix)\<close> is \<^verbatim>\<open>len(s) >= len(prefix) && s[:len(prefix)] == prefix\<close>
  and \<^verbatim>\<open>strings.HasSuffix(s, suffix)\<close> is
  \<^verbatim>\<open>len(s) >= len(suffix) && s[len(s)-len(suffix):] == suffix\<close>.
\<close>

definition strings_HasPrefix :: "string \<Rightarrow> string \<Rightarrow> bool" where
  "strings_HasPrefix s pre = (length pre \<le> length s \<and> take (length pre) s = pre)"

definition strings_HasSuffix :: "string \<Rightarrow> string \<Rightarrow> bool" where
  "strings_HasSuffix s suf = (length suf \<le> length s \<and> drop (length s - length suf) s = suf)"

definition matchesPattern :: "string \<Rightarrow> Destination \<Rightarrow> bool" where
  "matchesPattern filename dest =
     (if Prefix dest \<noteq> [] \<and> Suffix dest \<noteq> [] then
        strings_HasPrefix filename (Prefix dest) \<and> strings_HasSuffix filename (Suffix dest)
      else if Prefix dest \<noteq> [] then strings_HasPrefix filename (Prefix dest)
      else if Suffix dest \<noteq> [] then strings_HasSuffix filename (Suffix dest)
      else False)"

section \<open>The operating system\<close>

text \<open>
  The program reaches the file system through \<^verbatim>\<open>os\<close>, \<^verbatim>\<open>io\<close> and \<^verbatim>\<open>path/filepath\<close>. The
  world it runs in is a state that each call reads or updates:
  \<^item> \<open>nodes\<close>: what exists at each path, a regular file with its bytes and mode bits or
    a directory. The name space is flat: a path is looked up as a whole.
  \<^item> \<open>listing\<close>: what \<^verbatim>\<open>os.ReadDir\<close> reports for a directory. A pass of the organizer reads it
    once, before it moves anything, and the model does not maintain it afterwards.
  \<^item> \<open>refuses\<close>: the calls that the environment turns down for a reason the state does
    not show (a rename across devices, a missing permission, an I/O error).
  \<^item> \<open>shortWrite\<close>: how many bytes reach the destination when a copy is turned down.
  \<^item> \<open>logged\<close>: the lines written through \<^verbatim>\<open>log.Printf\<close>, oldest first.
  \<^verbatim>\<open>filepath.Join\<close> and \<^verbatim>\<open>filepath.Dir\<close> are library functions on strings and are taken as
  given, in a \<open>pathlib\<close>.
\<close>

type_synonym path = string
type_synonym byte = "8 word"
type_synonym FileMode = "32 word"

record pathlib =
  filepath_Join :: "path \<Rightarrow> string \<Rightarrow> path"
  filepath_Dir :: "path \<Rightarrow> path"

datatype node = File (content: "byte list") (perm: FileMode) | Directory (perm: FileMode)

record DirEntry =
  Name :: string
  IsDir :: bool

datatype syscall =
    Mkdir path
  | Rename path path
  | Open path
  | Create path
  | Copy path path
  | Chmod path
  | Remove path

datatype errno = NotExist | NotDirectory | IsDirectory | Invalid | Refused syscall

text \<open>
  A Go \<^verbatim>\<open>error\<close> result is an \<open>error option\<close>, \<open>None\<close> for \<^verbatim>\<open>nil\<close>. Each constructor is one
  of the messages the program wraps an error in; \<open>Unwrapped\<close> is an error returned as it
  came from the library.
\<close>

datatype error =
    DirectoryCreateError errno
  | AlreadyExistsError path
  | CopyFileError error
  | RemoveSourceError errno
  | OpenSourceError errno
  | CreateDestError errno
  | StatSourceError errno
  | Unwrapped errno
  | ReadDirError errno

datatype logLine =
    FailedCreateDestDir errno
  | DestExists path
  | FailedCopy error
  | FailedRemoveSource errno
  | FailedOpenSource errno
  | FailedCreateDest errno
  | FailedStatSource errno
  | FailedCloseSource
  | FailedCloseDest
  | FailedReadDump errno
  | Moving path path
  | ErrorMoving string error
  | Success string
  | NoMatch string
  | Summary nat nat

record world =
  nodes :: "path \<rightharpoonup> node"
  listing :: "path \<rightharpoonup> DirEntry list"
  refuses :: "syscall \<Rightarrow> bool"
  umask :: FileMode
  shortWrite :: nat
  logged :: "logLine list"

definition logPrintf :: "logLine \<Rightarrow> world \<Rightarrow> world" where
  "logPrintf l w = w\<lparr>logged := logged w @ [l]\<rparr>"

definition ModeDir :: FileMode where
  "ModeDir = push_bit 31 1"

definition fileMode :: "node \<Rightarrow> FileMode" where
  "fileMode n = (case n of File c m \<Rightarrow> m | Directory m \<Rightarrow> or ModeDir m)"

definition os_Stat :: "path \<Rightarrow> world \<Rightarrow> errno + node" where
  "os_Stat p w = (case nodes w p of None \<Rightarrow> Inl NotExist | Some n \<Rightarrow> Inr n)"

text \<open>
  \<^verbatim>\<open>os.MkdirAll\<close>: "If path is already a directory, MkdirAll does nothing and returns nil."
  A regular file in the way is an error. The flat name space records the directory asked
  for, not its ancestors.
\<close>

definition os_MkdirAll :: "path \<Rightarrow> FileMode \<Rightarrow> world \<Rightarrow> errno option \<times> world" where
  "os_MkdirAll p m w =
     (case nodes w p of
        Some (Directory _) \<Rightarrow> (None, w)
      | Some (File _ _) \<Rightarrow> (Some NotDirectory, w)
      | None \<Rightarrow>
          if refuses w (Mkdir p) then (Some (Refused (Mkdir p)), w)
          else (None, w\<lparr>nodes := (nodes w)(p \<mapsto> Directory (and m (not (umask w))))\<rparr>))"

text \<open>
  \<^verbatim>\<open>os.Rename\<close> replaces what is at the new path, as \<^verbatim>\<open>rename(2)\<close> does, unless a file
  would replace a directory or a directory a file.
\<close>

definition os_Rename :: "path \<Rightarrow> path \<Rightarrow> world \<Rightarrow> errno option \<times> world" where
  "os_Rename old new w =
     (if refuses w (Rename old new) then (Some (Refused (Rename old new)), w)
      else case nodes w old of
        None \<Rightarrow> (Some NotExist, w)
      | Some n \<Rightarrow>
         (case (n, nodes w new) of
            (File _ _, Some (Directory _)) \<Rightarrow> (Some IsDirectory, w)
          | (Directory _, Some (File _ _)) \<Rightarrow> (Some NotDirectory, w)
          | _ \<Rightarrow> (None, w\<lparr>nodes := ((nodes w)(old := None))(new \<mapsto> n)\<rparr>)))"

text \<open>An open file is known by its path; both files are read and written from offset 0.\<close>

definition os_Open :: "path \<Rightarrow> world \<Rightarrow> errno + path" where
  "os_Open p w =
     (if refuses w (Open p) then Inl (Refused (Open p))
      else case nodes w p of None \<Rightarrow> Inl NotExist | Some _ \<Rightarrow> Inr p)"

text \<open>\<^verbatim>\<open>os.Create\<close> truncates an existing file and creates a missing one with mode 0666 less the umask.\<close>

definition os_Create :: "path \<Rightarrow> world \<Rightarrow> (errno + path) \<times> world" where
  "os_Create p w =
     (if refuses w (Create p) then (Inl (Refused (Create p)), w)
      else case nodes w p of
        Some (Directory _) \<Rightarrow> (Inl IsDirectory, w)
      | Some (File _ m) \<Rightarrow> (Inr p, w\<lparr>nodes := (nodes w)(p \<mapsto> File [] m)\<rparr>)
      | None \<Rightarrow> (Inr p, w\<lparr>nodes := (nodes w)(p \<mapsto> File [] (and 438 (not (umask w))))\<rparr>))"

definition writeAt0 :: "path \<Rightarrow> byte list \<Rightarrow> world \<Rightarrow> world" where
  "writeAt0 p bs w =
     (case nodes w p of
        Some (File old m) \<Rightarrow> w\<lparr>nodes := (nodes w)(p \<mapsto> File (bs @ drop (length bs) old) m)\<rparr>
      | _ \<Rightarrow> w)"

text \<open>
  \<^verbatim>\<open>io.Copy(dst, src)\<close> writes all of the source to the destination; a copy that is turned
  down leaves the first \<open>shortWrite\<close> bytes behind.
\<close>

definition io_Copy :: "path \<Rightarrow> path \<Rightarrow> world \<Rightarrow> errno option \<times> world" where
  "io_Copy dst src w =
     (case nodes w src of
        None \<Rightarrow> (Some NotExist, w)
      | Some (Directory _) \<Rightarrow> (Some IsDirectory, w)
      | Some (File bs _) \<Rightarrow>
          if refuses w (Copy src dst)
          then (Some (Refused (Copy src dst)), writeAt0 dst (take (shortWrite w) bs) w)
          else (None, writeAt0 dst bs w))"

definition os_Chmod :: "path \<Rightarrow> FileMode \<Rightarrow> world \<Rightarrow> errno option \<times> world" where
  "os_Chmod p m w =
     (if refuses w (Chmod p) then (Some (Refused (Chmod p)), w)
      else case nodes w p of
        None \<Rightarrow> (Some NotExist, w)
      | Some (File bs _) \<Rightarrow> (None, w\<lparr>nodes := (nodes w)(p \<mapsto> File bs m)\<rparr>)
      | Some (Directory _) \<Rightarrow> (None, w\<lparr>nodes := (nodes w)(p \<mapsto> Directory (and m (not ModeDir)))\<rparr>))"

definition os_Remove :: "path \<Rightarrow> world \<Rightarrow> errno option \<times> world" where
  "os_Remove p w =
     (if refuses w (Remove p) then (Some (Refused (Remove p)), w)
      else case nodes w p of
        None \<Rightarrow> (Some NotExist, w)
      | Some _ \<Rightarrow> (None, w\<lparr>nodes := (nodes w)(p := None)\<rparr>))"

definition os_ReadDir :: "path \<Rightarrow> world \<Rightarrow> errno + DirEntry list" where
  "os_ReadDir p w = (case listing w p of None \<Rightarrow> Inl NotExist | Some es \<Rightarrow> Inr es)"

section \<open>File relocator\<close>

text \<open>
  \<^verbatim>\<open>(*os.File).Close\<close> on a nil file returns \<^verbatim>\<open>ErrInvalid\<close>; closing an open file succeeds.
\<close>

definition closeFile :: "path option \<Rightarrow> errno option" where
  "closeFile f = (case f of None \<Rightarrow> Some Invalid | Some _ \<Rightarrow> None)"

text \<open>
  The closure that \<^verbatim>\<open>copyFile\<close> defers for each of its two files. It runs when \<^verbatim>\<open>copyFile\<close>
  returns, on the variable \<^verbatim>\<open>err\<close> of the function body as it is then; \<^verbatim>\<open>copyFile\<close> has no
  named result, so what the closure assigns to \<^verbatim>\<open>err\<close> is not returned.
  \<^verbatim>\<open>
  closeErr := f.Close()
  if err == nil {
      log.Printf("failed to close ... file: %v", err)
      err = closeErr
  }
  \<close>
\<close>

definition deferredClose :: "logLine \<Rightarrow> path option \<Rightarrow> errno option \<times> world \<Rightarrow> errno option \<times> world" where
  "deferredClose line f = (\<lambda>(err, w).
     let closeErr = closeFile f in
     if err = None then (closeErr, logPrintf line w) else (err, w))"

text \<open>
  \<^verbatim>\<open>copyFile\<close>. The closures are deferred before the error of \<^verbatim>\<open>os.Open\<close> and \<^verbatim>\<open>os.Create\<close> is
  looked at, and run last in, first out. The error of \<^verbatim>\<open>io.Copy\<close> lives in the scope of its
  \<^verbatim>\<open>if\<close>, so the outer \<^verbatim>\<open>err\<close> is still \<^verbatim>\<open>nil\<close> when that branch returns.
\<close>

definition copyFile :: "path \<Rightarrow> path \<Rightarrow> world \<Rightarrow> error option \<times> world" where
  "copyFile sourcePath destPath w =
     (case os_Open sourcePath w of
        Inl err \<Rightarrow>
          (Some (OpenSourceError err),
           snd (deferredClose FailedCloseSource None
                  (Some err, logPrintf (FailedOpenSource err) w)))
      | Inr sourceFile \<Rightarrow>
         (case os_Create destPath w of
            (Inl err, w1) \<Rightarrow>
              (Some (CreateDestError err),
               snd (deferredClose FailedCloseSource (Some sourceFile)
                     (deferredClose FailedCloseDest None
                        (Some err, logPrintf (FailedCreateDest err) w1))))
          | (Inr destFile, w1) \<Rightarrow>
             (case io_Copy destFile sourceFile w1 of
                (Some cerr, w2) \<Rightarrow>
                  (Some (Unwrapped cerr),
                   snd (deferredClose FailedCloseSource (Some sourceFile)
                         (deferredClose FailedCloseDest (Some destFile) (None, w2))))
              | (None, w2) \<Rightarrow>
                 (case os_Stat sourcePath w2 of
                    Inl err \<Rightarrow>
                      (Some (StatSourceError err),
                       snd (deferredClose FailedCloseSource (Some sourceFile)
                             (deferredClose FailedCloseDest (Some destFile)
                                (Some err, logPrintf (FailedStatSource err) w2))))
                  | Inr sourceInfo \<Rightarrow>
                     (case os_Chmod destPath (fileMode sourceInfo) w2 of
                        (r, w3) \<Rightarrow>
                          (map_option Unwrapped r,
                           snd (deferredClose FailedCloseSource (Some sourceFile)
                                 (deferredClose FailedCloseDest (Some destFile) (None, w3)))))))))"

definition moveFile :: "pathlib \<Rightarrow> path \<Rightarrow> path \<Rightarrow> world \<Rightarrow> error option \<times> world" where
  "moveFile lib sourcePath destPath w =
     (let destDir = filepath_Dir lib destPath in
      case os_MkdirAll destDir 493 w of
        (Some err, w1) \<Rightarrow>
          (Some (DirectoryCreateError err), logPrintf (FailedCreateDestDir err) w1)
      | (None, w1) \<Rightarrow>
         (case os_Stat destPath w1 of
            Inr _ \<Rightarrow>
              (Some (AlreadyExistsError destPath),
               logPrintf (DestExists destPath) (logPrintf (DestExists destPath) w1))
          | Inl _ \<Rightarrow>
             (case os_Rename sourcePath destPath w1 of
                (None, w2) \<Rightarrow> (None, w2)
              | (Some _, w2) \<Rightarrow>
                 (case copyFile sourcePath destPath w2 of
                    (Some err, w3) \<Rightarrow>
                      (Some (CopyFileError err), logPrintf (FailedCopy err) w3)
                  | (None, w3) \<Rightarrow>
                     (case os_Remove sourcePath w3 of
                        (Some err, w4) \<Rightarrow>
                          (Some (RemoveSourceError err), logPrintf (FailedRemoveSource err) w4)
                      | (None, w4) \<Rightarrow> (None, w4))))))"

section \<open>Batch organizer\<close>

text \<open>
  The inner loop of \<^verbatim>\<open>organizeFiles\<close> over \<^verbatim>\<open>config.Destinations\<close>, for one file. The loop
  state is the three variables the loop assigns, \<^verbatim>\<open>movedCount\<close>, \<^verbatim>\<open>skippedCount\<close> and \<^verbatim>\<open>moved\<close>,
  and the world. The \<^verbatim>\<open>break\<close> is the branch without a recursive call. The counters are Go
  \<^verbatim>\<open>int\<close>s that are incremented at most twice for each directory entry, far from
  overflow, and are natural numbers here.
\<close>

fun scanRules ::
  "pathlib \<Rightarrow> path \<Rightarrow> string \<Rightarrow> Destination list \<Rightarrow> nat \<times> nat \<times> bool \<times> world
     \<Rightarrow> nat \<times> nat \<times> bool \<times> world" where
  "scanRules lib sourcePath filename [] st = st"
| "scanRules lib sourcePath filename (dest # rest) (movedCount, skippedCount, moved, w) =
     (if matchesPattern filename dest then
        (let destPath = filepath_Join lib (Path dest) filename in
         case moveFile lib sourcePath destPath (logPrintf (Moving sourcePath destPath) w) of
           (Some err, w1) \<Rightarrow>
             (movedCount, skippedCount + 1, moved, logPrintf (ErrorMoving filename err) w1)
         | (None, w1) \<Rightarrow>
             (movedCount + 1, skippedCount, True, logPrintf (Success filename) w1))
      else scanRules lib sourcePath filename rest (movedCount, skippedCount, moved, w))"

text \<open>The body of the outer loop, for one directory entry.\<close>

definition organizeEntry ::
  "pathlib \<Rightarrow> Config \<Rightarrow> DirEntry \<Rightarrow> nat \<times> nat \<times> world \<Rightarrow> nat \<times> nat \<times> world" where
  "organizeEntry lib config file = (\<lambda>(movedCount, skippedCount, w).
     if IsDir file then (movedCount, skippedCount, w)
     else
       (let filename = Name file;
            sourcePath = filepath_Join lib (DumpDirectory config) filename
        in case scanRules lib sourcePath filename (Destinations config)
                  (movedCount, skippedCount, False, w) of
             (movedCount', skippedCount', moved, w1) \<Rightarrow>
               if \<not> moved
               then (movedCount', skippedCount' + 1, logPrintf (NoMatch filename) w1)
               else (movedCount', skippedCount', w1)))"

definition organizeLoop ::
  "pathlib \<Rightarrow> Config \<Rightarrow> DirEntry list \<Rightarrow> nat \<times> nat \<times> world \<Rightarrow> nat \<times> nat \<times> world" where
  "organizeLoop lib config files st = foldl (\<lambda>st file. organizeEntry lib config file st) st files"

text \<open>
  \<^verbatim>\<open>organizeFiles\<close> returns an \<^verbatim>\<open>error\<close> and nothing else. The two counters are local; their
  last values go into the summary line of the log.
\<close>

definition organizeFiles :: "pathlib \<Rightarrow> Config \<Rightarrow> world \<Rightarrow> error option \<times> world" where
  "organizeFiles lib config w =
     (case os_ReadDir (DumpDirectory config) w of
        Inl err \<Rightarrow> (Some (ReadDirError err), logPrintf (FailedReadDump err) w)
      | Inr files \<Rightarrow>
         (case organizeLoop lib config files (0, 0, w) of
            (movedCount, skippedCount, w1) \<Rightarrow>
              (None, logPrintf (Summary movedCount skippedCount) w1)))"

section \<open>Start-up and the debounced watch loop\<close>

text \<open>
  What \<^verbatim>\<open>main\<close> meets on its way to the watch loop, each a call outside this program:
  whether \<^verbatim>\<open>app.log\<close> opens, what \<^verbatim>\<open>loadConfig\<close> returns, whether \<^verbatim>\<open>fsnotify.NewWatcher\<close> and
  \<^verbatim>\<open>watcher.Add\<close> succeed. The dump directory is looked up in the world.
\<close>

record startupEnv =
  logFileOpens :: bool
  loadedConfig :: "Config option"
  watcherCreated :: bool
  watcherAdded :: bool

datatype fatal = LogFileFatal | ConfigFatal | DumpDirectoryFatal | WatcherFatal

text \<open>
  \<^verbatim>\<open>main\<close> up to the point where it waits for a signal. \<^verbatim>\<open>log.Fatal\<close> and \<^verbatim>\<open>log.Fatalf\<close> end the
  process, \<open>Inl\<close>; otherwise the process runs, \<open>Inr\<close>, and the result says whether the
  watcher is subscribed to the dump directory. The check of the dump directory is
  \<^verbatim>\<open>os.IsNotExist(err)\<close> on the error of \<^verbatim>\<open>os.Stat\<close>.
\<close>

definition main_startup :: "startupEnv \<Rightarrow> world \<Rightarrow> fatal + bool" where
  "main_startup env w =
     (if \<not> logFileOpens env then Inl LogFileFatal
      else case loadedConfig env of
        None \<Rightarrow> Inl ConfigFatal
      | Some config \<Rightarrow>
          if os_Stat (DumpDirectory config) w = Inl NotExist then Inl DumpDirectoryFatal
          else if \<not> watcherCreated env then Inl WatcherFatal
          else if \<not> watcherAdded env then Inr False
          else Inr True)"

text \<open>
  The watch loop. Time is counted in nanoseconds, as \<^verbatim>\<open>time.Duration\<close> does.

  A timer made by \<^verbatim>\<open>time.AfterFunc\<close> belongs to the Go runtime: it fires when it is due
  unless it has been stopped, whether or not the program still holds a pointer to it.
  \<open>timers\<close> are all the timers made so far, oldest first, each with the instant it is
  due at and whether it is still pending. The global variable \<^verbatim>\<open>timer\<close> is \<^verbatim>\<open>nil\<close> or
  points to one of them, by its position. \<open>passes\<close> are the instants at which the
  function given to \<^verbatim>\<open>time.AfterFunc\<close>, one call of \<^verbatim>\<open>organizeFiles\<close>, has been started.
\<close>

definition debounceDelay :: nat where
  "debounceDelay = 5 * 1000000000"

record Timer =
  due :: nat
  pending :: bool

record watch =
  timers :: "Timer list"
  timer :: "nat option"
  passes :: "nat list"

datatype notification = Event | Error

text \<open>
  The Go runtime: by the instant \<open>now\<close>, every pending timer that is due has fired, the
  earliest first.
\<close>

definition elapse :: "nat \<Rightarrow> watch \<Rightarrow> watch" where
  "elapse now s =
     s\<lparr>timers := map (\<lambda>t. if pending t \<and> due t \<le> now then t\<lparr>pending := False\<rparr> else t) (timers s),
       passes := passes s @ sort (map due (filter (\<lambda>t. pending t \<and> due t \<le> now) (timers s)))\<rparr>"

text \<open>
  \<^verbatim>\<open>(*time.Timer).Stop\<close> keeps the timer pointed to from firing; on a timer that has fired
  or has been stopped it changes nothing.
\<close>

definition timer_Stop :: "nat \<Rightarrow> watch \<Rightarrow> watch" where
  "timer_Stop p s =
     (if p < length (timers s)
      then s\<lparr>timers := (timers s)[p := (timers s ! p)\<lparr>pending := False\<rparr>]\<rparr>
      else s)"

text \<open>\<^verbatim>\<open>time.AfterFunc\<close> makes a new pending timer and returns the pointer to it.\<close>

definition time_AfterFunc :: "nat \<Rightarrow> nat \<Rightarrow> watch \<Rightarrow> nat \<times> watch" where
  "time_AfterFunc now d s =
     (length (timers s), s\<lparr>timers := timers s @ [\<lparr>due = now + d, pending = True\<rparr>]\<rparr>)"

text \<open>One round of the \<^verbatim>\<open>select\<close>, for a notification received at the instant \<open>now\<close>.\<close>

definition onNotification :: "nat \<Rightarrow> notification \<Rightarrow> watch \<Rightarrow> watch" where
  "onNotification now n s =
     (case n of
        Event \<Rightarrow>
          (let s1 = (case timer s of
                       Some p \<Rightarrow> timer_Stop p s
                     | None \<Rightarrow> s)
           in case time_AfterFunc now debounceDelay s1 of
                (p, s2) \<Rightarrow> s2\<lparr>timer := Some p\<rparr>)
      | Error \<Rightarrow> s)"

text \<open>
  The loop over the notifications in the order they arrive, each with the instant it is
  received at.
\<close>

fun watchLoop :: "(nat \<times> notification) list \<Rightarrow> watch \<Rightarrow> watch" where
  "watchLoop [] s = s"
| "watchLoop ((now, n) # rest) s = watchLoop rest (onNotification now n (elapse now s))"

text \<open>The program starts with no timer.\<close>

definition started :: watch where
  "started = \<lparr>timers = [], timer = None, passes = []\<rparr>"

text \<open>
  The passes of a run that receives the given notifications and then stays up with
  nothing more to receive: every timer still pending after the last one fires when it
  is due.
\<close>

definition organizePasses :: "(nat \<times> notification) list \<Rightarrow> nat list" where
  "organizePasses ns =
     (let s = watchLoop ns started in
      passes s @ sort (map due (filter pending (timers s))))"

text \<open>
  Two properties of the runtime's timers that the loop keeps: \<open>spent\<close> timers have fired
  or have been stopped, and in \<open>oneTimer\<close> states every timer but the newest, the one
  the global variable points to, is spent.
\<close>

definition spent :: "Timer list \<Rightarrow> bool" where
  "spent old = (\<forall>t \<in> set old. \<not> pending t)"

definition oneTimer :: "watch \<Rightarrow> bool" where
  "oneTimer s \<longleftrightarrow>
     (timers s = [] \<and> timer s = None)
     \<or> (\<exists>old t. timers s = old @ [t] \<and> spent old \<and> timer s = Some (length old))"

section \<open>A small world for the examples\<close>

text \<open>
  On clean absolute paths such as the ones below, \<^verbatim>\<open>filepath.Join(d, n)\<close> is \<open>d\<close>, a slash and
  \<open>n\<close>, and \<^verbatim>\<open>filepath.Dir(p)\<close> is \<open>p\<close> up to its last slash.
\<close>

definition demoLib :: pathlib where
  "demoLib = \<lparr>filepath_Join = (\<lambda>d n. d @ ''/'' @ n),
              filepath_Dir = (\<lambda>p. rev (tl (dropWhile (\<lambda>c. c \<noteq> CHR ''/'') (rev p))))\<rparr>"

text \<open>
  A dump directory with two files and a subdirectory, and a destination directory that
  already holds a file named like the first one. Nothing is refused.
\<close>

definition demoWorld :: world where
  "demoWorld =
     \<lparr>nodes = [''/dump'' \<mapsto> Directory 493,
               ''/dump/a.txt'' \<mapsto> File [1, 2, 3] 420,
               ''/dump/b.txt'' \<mapsto> File [4, 5] 384,
               ''/dump/sub'' \<mapsto> Directory 493,
               ''/out'' \<mapsto> Directory 493,
               ''/out/a.txt'' \<mapsto> File [9] 384],
      listing = [''/dump'' \<mapsto> [\<lparr>Name = ''a.txt'', IsDir = False\<rparr>,
                                \<lparr>Name = ''b.txt'', IsDir = False\<rparr>,
                                \<lparr>Name = ''sub'', IsDir = True\<rparr>]],
      refuses = (\<lambda>c. False),
      umask = 18,
      shortWrite = 0,
      logged = []\<rparr>"

text \<open>Two rules that both match \<open>a.txt\<close>; only the second matches \<open>b.txt\<close>.\<close>

definition demoConfig :: Config where
  "demoConfig =
     \<lparr>DumpDirectory = ''/dump'',
      Destinations = [\<lparr>Path = ''/out'', Prefix = ''a'', Suffix = []\<rparr>,
                      \<lparr>Path = ''/other'', Prefix = [], Suffix = ''.txt''\<rparr>]\<rparr>"

text \<open>
  Three rules that overlap: \<open>a.txt\<close> matches the first and the second, \<open>b.txt\<close> the
  second and the third.
\<close>

definition overlapConfig :: Config where
  "overlapConfig =
     \<lparr>DumpDirectory = ''/dump'',
      Destinations = [\<lparr>Path = ''/out'', Prefix = ''a'', Suffix = []\<rparr>,
                      \<lparr>Path = ''/other'', Prefix = [], Suffix = ''.txt''\<rparr>,
                      \<lparr>Path = ''/third'', Prefix = ''b'', Suffix = []\<rparr>]\<rparr>"

text \<open>The same world with the dump directory and the destination on different devices.\<close>

definition crossDevice :: world where
  "crossDevice = demoWorld\<lparr>refuses := (\<lambda>c. c = Rename ''/dump/b.txt'' ''/out/b.txt'')\<rparr>"

section \<open>The rule matcher meets its contract\<close>

lemma HasPrefix_iff_prefix: "strings_HasPrefix s pre \<longleftrightarrow> prefix pre s"
proof
  assume "strings_HasPrefix s pre"
  then have "take (length pre) s = pre"
    by (simp add: strings_HasPrefix_def)
  then show "prefix pre s"
    by (metis take_is_prefix)
next
  assume "prefix pre s"
  then obtain rest where "s = pre @ rest"
    by (auto simp: prefix_def)
  then show "strings_HasPrefix s pre"
    by (simp add: strings_HasPrefix_def)
qed

lemma HasSuffix_iff_suffix: "strings_HasSuffix s suf \<longleftrightarrow> suffix suf s"
proof
  assume "strings_HasSuffix s suf"
  then have "drop (length s - length suf) s = suf"
    by (simp add: strings_HasSuffix_def)
  then show "suffix suf s"
    by (metis suffix_drop)
next
  assume "suffix suf s"
  then obtain front where "s = front @ suf"
    by (auto simp: suffix_def)
  then show "strings_HasSuffix s suf"
    by (simp add: strings_HasSuffix_def)
qed

text \<open>
  C1. \<open>matchesPattern f r\<close> is true exactly when every non-empty condition of \<open>r\<close> holds
  of \<open>f\<close> (\<open>f\<close> starts with a non-empty prefix, \<open>f\<close> ends with a non-empty suffix) and
  at least one of the two is non-empty; a rule with both empty matches no filename.
  "Starts with" and "ends with" are the list relations \<^const>\<open>prefix\<close> and \<^const>\<open>suffix\<close>.
\<close>

theorem matchesPattern_contract:
  "matchesPattern f r \<longleftrightarrow>
     (Prefix r \<noteq> [] \<or> Suffix r \<noteq> []) \<and>
     (Prefix r \<noteq> [] \<longrightarrow> prefix (Prefix r) f) \<and>
     (Suffix r \<noteq> [] \<longrightarrow> suffix (Suffix r) f)"
  by (simp add: matchesPattern_def HasPrefix_iff_prefix HasSuffix_iff_suffix)

theorem matchesPattern_contract_witness:
  "matchesPattern ''report_2024.csv'' \<lparr>Path = ''/archive'', Prefix = ''report_'', Suffix = ''.csv''\<rparr>
   \<and> \<not> matchesPattern ''report_2024.txt'' \<lparr>Path = ''/archive'', Prefix = ''report_'', Suffix = ''.csv''\<rparr>
   \<and> \<not> matchesPattern ''report_2024.csv'' \<lparr>Path = ''/archive'', Prefix = [], Suffix = []\<rparr>"
  using matchesPattern_contract [of "''report_2024.csv''"
      "\<lparr>Path = ''/archive'', Prefix = ''report_'', Suffix = ''.csv''\<rparr>"]
    matchesPattern_contract [of "''report_2024.txt''"
      "\<lparr>Path = ''/archive'', Prefix = ''report_'', Suffix = ''.csv''\<rparr>"]
    matchesPattern_contract [of "''report_2024.csv''"
      "\<lparr>Path = ''/archive'', Prefix = [], Suffix = []\<rparr>"]
  by (simp add: prefix_def suffix_def)

text \<open>
  C10. With both conditions set, a filename that starts with the prefix and ends with
  the suffix matches, whatever the lengths: the two regions may overlap, as in
  \<open>''aba''\<close> against prefix \<open>''ab''\<close> and suffix \<open>''ba''\<close>.
\<close>

theorem matchesPattern_overlap:
  "Prefix r \<noteq> [] \<Longrightarrow> Suffix r \<noteq> [] \<Longrightarrow> prefix (Prefix r) f \<Longrightarrow> suffix (Suffix r) f
     \<Longrightarrow> matchesPattern f r"
  by (simp add: matchesPattern_def HasPrefix_iff_prefix HasSuffix_iff_suffix)

theorem matchesPattern_overlap_witness:
  "length ''aba'' < length ''ab'' + length ''ba''
   \<and> matchesPattern ''aba'' \<lparr>Path = ''/d'', Prefix = ''ab'', Suffix = ''ba''\<rparr>"
proof -
  have p: "prefix ''ab'' ''aba''"
    by (simp add: prefix_def)
  have s: "suffix ''ba'' ''aba''"
    by (simp add: suffix_def)
  show ?thesis
    using matchesPattern_overlap [of "\<lparr>Path = ''/d'', Prefix = ''ab'', Suffix = ''ba''\<rparr>" "''aba''"] p s
    by simp
qed

section \<open>What the operating system calls change\<close>

lemma logPrintf_fields [simp]:
  "nodes (logPrintf l w) = nodes w"
  "listing (logPrintf l w) = listing w"
  "refuses (logPrintf l w) = refuses w"
  "umask (logPrintf l w) = umask w"
  "shortWrite (logPrintf l w) = shortWrite w"
  "logged (logPrintf l w) = logged w @ [l]"
  by (simp_all add: logPrintf_def)

lemma deferredClose_nodes [simp]:
  "nodes (snd (deferredClose l f (e, w))) = nodes w"
  by (simp add: deferredClose_def Let_def)

lemma deferredClose_twice_nodes [simp]:
  "nodes (snd (deferredClose l f (deferredClose l' f' (e, w)))) = nodes w"
  by (simp add: deferredClose_def Let_def)

lemma os_MkdirAll_files:
  assumes "os_MkdirAll d m w = (None, w1)"
  shows "nodes w1 p = Some (File bs k) \<longleftrightarrow> nodes w p = Some (File bs k)"
  using assms by (auto simp: os_MkdirAll_def split: option.splits node.splits if_splits)

lemma os_Rename_fails:
  assumes "os_Rename old new w = (Some e, w2)"
  shows "w2 = w"
  using assms by (auto simp: os_Rename_def split: option.splits node.splits if_splits)

lemma os_Remove_ok:
  assumes "os_Remove p w = (None, w')"
  shows "nodes w' = (nodes w)(p := None)"
  using assms by (auto simp: os_Remove_def split: option.splits if_splits)

lemma io_Copy_ok:
  assumes "io_Copy dst src w = (None, w')" and "nodes w dst = Some (File [] m)" and "src \<noteq> dst"
  shows "\<exists>bs k. nodes w src = Some (File bs k) \<and> nodes w' = (nodes w)(dst \<mapsto> File bs m)"
  using assms by (auto simp: io_Copy_def writeAt0_def split: option.splits node.splits if_splits)

lemma os_Create_fresh:
  assumes "os_Create p w = (Inr h, w')" and "nodes w p = None"
  shows "h = p \<and> nodes w' = (nodes w)(p \<mapsto> File [] (and 438 (not (umask w))))"
  using assms by (auto simp: os_Create_def split: option.splits node.splits if_splits)

lemma os_Open_ok:
  assumes "os_Open p w = Inr h"
  shows "h = p \<and> nodes w p \<noteq> None"
  using assms by (auto simp: os_Open_def split: option.splits if_splits)

lemma os_Chmod_file:
  assumes "os_Chmod p m w = (None, w')" and "nodes w p = Some (File bs k)"
  shows "nodes w' = (nodes w)(p \<mapsto> File bs m)"
  using assms by (auto simp: os_Chmod_def split: option.splits if_splits)

lemma os_keep_log [simp]:
  "logged (snd (os_MkdirAll p m w)) = logged w"
  "logged (snd (os_Rename old new w)) = logged w"
  "logged (snd (os_Create p w)) = logged w"
  "logged (snd (io_Copy dst src w)) = logged w"
  "logged (snd (os_Chmod p m w)) = logged w"
  "logged (snd (os_Remove p w)) = logged w"
  by (auto simp: os_MkdirAll_def os_Rename_def os_Create_def io_Copy_def writeAt0_def
      os_Chmod_def os_Remove_def split: option.splits node.splits)

lemmas run_defs =
  moveFile_def copyFile_def os_MkdirAll_def os_Stat_def os_Rename_def os_Open_def
  os_Create_def io_Copy_def os_Chmod_def os_Remove_def os_ReadDir_def writeAt0_def
  closeFile_def deferredClose_def fileMode_def logPrintf_def Let_def
  matchesPattern_def strings_HasPrefix_def strings_HasSuffix_def
  demoLib_def demoWorld_def demoConfig_def

lemmas pass_defs = organizeFiles_def organizeLoop_def organizeEntry_def

section \<open>The relocator does not overwrite\<close>

text \<open>
  C3. When something exists at \<open>destPath\<close>, in a directory that exists as every
  directory holding a file does, \<open>moveFile\<close> returns the already-exists error and the
  file system is as it was: neither the source nor the destination has changed.
\<close>

theorem moveFile_never_overwrites:
  assumes "nodes w destPath = Some n"
    and "nodes w (filepath_Dir lib destPath) = Some (Directory m)"
  shows "fst (moveFile lib sourcePath destPath w) = Some (AlreadyExistsError destPath)
       \<and> nodes (snd (moveFile lib sourcePath destPath w)) = nodes w"
  using assms by (simp add: moveFile_def os_MkdirAll_def os_Stat_def)

theorem moveFile_never_overwrites_witness:
  "nodes demoWorld ''/out/a.txt'' = Some (File [9] 384)
   \<and> nodes demoWorld (filepath_Dir demoLib ''/out/a.txt'') = Some (Directory 493)
   \<and> fst (moveFile demoLib ''/dump/a.txt'' ''/out/a.txt'' demoWorld)
       = Some (AlreadyExistsError ''/out/a.txt'')
   \<and> nodes (snd (moveFile demoLib ''/dump/a.txt'' ''/out/a.txt'' demoWorld)) ''/out/a.txt''
       = Some (File [9] 384)
   \<and> nodes (snd (moveFile demoLib ''/dump/a.txt'' ''/out/a.txt'' demoWorld)) ''/dump/a.txt''
       = Some (File [1, 2, 3] 420)"
proof -
  have there: "nodes demoWorld ''/out/a.txt'' = Some (File [9] 384)"
    by (simp add: demoWorld_def)
  have parent: "nodes demoWorld (filepath_Dir demoLib ''/out/a.txt'') = Some (Directory 493)"
    by (simp add: demoWorld_def demoLib_def)
  have src: "nodes demoWorld ''/dump/a.txt'' = Some (File [1, 2, 3] 420)"
    by (simp add: demoWorld_def)
  from moveFile_never_overwrites [OF there parent, of "''/dump/a.txt''"] there parent src
  show ?thesis
    by simp
qed

section \<open>The copy-and-remove fallback\<close>

lemma copyFile_ok:
  assumes ok: "copyFile sourcePath destPath w = (None, w')"
    and fresh: "nodes w destPath = None"
  shows "\<exists>bs m. nodes w sourcePath = Some (File bs m)
               \<and> nodes w' = (nodes w)(destPath \<mapsto> File bs m)"
proof -
  from ok obtain sourceFile where op: "os_Open sourcePath w = Inr sourceFile"
    by (auto simp: copyFile_def split: sum.splits)
  then have sf: "sourceFile = sourcePath" and ex: "nodes w sourcePath \<noteq> None"
    using os_Open_ok by blast+
  from ex fresh have ne: "sourcePath \<noteq> destPath"
    by auto
  from ok op obtain destFile w1 where cr: "os_Create destPath w = (Inr destFile, w1)"
    by (auto simp: copyFile_def split: sum.splits prod.splits)
  then have df: "destFile = destPath"
    and n1: "nodes w1 = (nodes w)(destPath \<mapsto> File [] (and 438 (not (umask w))))"
    using os_Create_fresh [OF cr fresh] by blast+
  from ok op cr obtain w2 where cp: "io_Copy destPath sourcePath w1 = (None, w2)"
    by (auto simp: copyFile_def sf df split: sum.splits prod.splits option.splits)
  from io_Copy_ok [OF cp _ ne] n1
  obtain bs k where src1: "nodes w1 sourcePath = Some (File bs k)"
    and n2: "nodes w2 = (nodes w1)(destPath \<mapsto> File bs (and 438 (not (umask w))))"
    by auto
  from src1 n1 ne have src: "nodes w sourcePath = Some (File bs k)"
    by simp
  from n2 src1 ne have st: "os_Stat sourcePath w2 = Inr (File bs k)"
    by (simp add: os_Stat_def)
  from ok op cr cp st obtain w3 where ch: "os_Chmod destPath k w2 = (None, w3)"
    and w': "nodes w' = nodes w3"
    by (auto simp: copyFile_def sf df fileMode_def split: sum.splits prod.splits option.splits)
  from n2 have "nodes w2 destPath = Some (File bs (and 438 (not (umask w))))"
    by simp
  from os_Chmod_file [OF ch this] have "nodes w3 = (nodes w2)(destPath \<mapsto> File bs k)" .
  with w' n2 n1 have "nodes w' = (nodes w)(destPath \<mapsto> File bs k)"
    by simp
  with src show ?thesis
    by blast
qed

lemma moveFile_takes_fallback:
  assumes mk: "os_MkdirAll (filepath_Dir lib destPath) 493 w = (None, w1)"
    and st: "os_Stat destPath w1 = Inl e1"
    and rn: "fst (os_Rename sourcePath destPath w1) = Some e2"
  shows "moveFile lib sourcePath destPath w =
           (case copyFile sourcePath destPath w1 of
              (Some err, w3) \<Rightarrow> (Some (CopyFileError err), logPrintf (FailedCopy err) w3)
            | (None, w3) \<Rightarrow>
               (case os_Remove sourcePath w3 of
                  (Some err, w4) \<Rightarrow>
                    (Some (RemoveSourceError err), logPrintf (FailedRemoveSource err) w4)
                | (None, w4) \<Rightarrow> (None, w4)))"
proof -
  obtain w2 where "os_Rename sourcePath destPath w1 = (Some e2, w2)"
    using rn by (cases "os_Rename sourcePath destPath w1") auto
  moreover from this have "w2 = w1"
    by (rule os_Rename_fails)
  ultimately show ?thesis
    using mk st by (simp add: moveFile_def)
qed

lemma fallback_result:
  assumes fresh: "nodes w1 destPath = None"
    and ok: "(case copyFile sourcePath destPath w1 of
              (Some err, w3) \<Rightarrow> (Some (CopyFileError err), logPrintf (FailedCopy err) w3)
            | (None, w3) \<Rightarrow>
               (case os_Remove sourcePath w3 of
                  (Some err, w4) \<Rightarrow>
                    (Some (RemoveSourceError err), logPrintf (FailedRemoveSource err) w4)
                | (None, w4) \<Rightarrow> (None, w4))) = (None, w')"
  shows "\<exists>bs m. nodes w1 sourcePath = Some (File bs m)
             \<and> nodes w' destPath = Some (File bs m) \<and> nodes w' sourcePath = None"
proof -
  from ok obtain w3 where cp: "copyFile sourcePath destPath w1 = (None, w3)"
    and rm: "os_Remove sourcePath w3 = (None, w')"
    by (auto split: prod.splits option.splits)
  from copyFile_ok [OF cp fresh] obtain bs m
    where src: "nodes w1 sourcePath = Some (File bs m)"
      and n3: "nodes w3 = (nodes w1)(destPath \<mapsto> File bs m)"
    by blast
  from src fresh have "sourcePath \<noteq> destPath"
    by auto
  with os_Remove_ok [OF rm] n3
  have "nodes w' destPath = Some (File bs m)" "nodes w' sourcePath = None"
    by simp_all
  with src show ?thesis
    by blast
qed

text \<open>
  C4. A call of \<open>moveFile\<close> that reaches the rename (the destination directory is there
  or has been made, nothing exists at \<open>destPath\<close>) and whose rename fails goes on with
  \<open>copyFile\<close> and then removes the source. When that call succeeds, the source was a
  regular file, the destination holds the same bytes and the same mode bits, and nothing
  is left at the source path.
\<close>

theorem moveFile_fallback:
  assumes mk: "os_MkdirAll (filepath_Dir lib destPath) 493 w = (None, w1)"
    and st: "os_Stat destPath w1 = Inl e1"
    and rn: "fst (os_Rename sourcePath destPath w1) = Some e2"
  shows "moveFile lib sourcePath destPath w =
           (case copyFile sourcePath destPath w1 of
              (Some err, w3) \<Rightarrow> (Some (CopyFileError err), logPrintf (FailedCopy err) w3)
            | (None, w3) \<Rightarrow>
               (case os_Remove sourcePath w3 of
                  (Some err, w4) \<Rightarrow>
                    (Some (RemoveSourceError err), logPrintf (FailedRemoveSource err) w4)
                | (None, w4) \<Rightarrow> (None, w4)))
       \<and> (fst (moveFile lib sourcePath destPath w) = None \<longrightarrow>
            (\<exists>bs m. nodes w sourcePath = Some (File bs m)
                  \<and> nodes (snd (moveFile lib sourcePath destPath w)) destPath = Some (File bs m)
                  \<and> nodes (snd (moveFile lib sourcePath destPath w)) sourcePath = None))"
proof (intro conjI impI)
  show eq: "moveFile lib sourcePath destPath w =
           (case copyFile sourcePath destPath w1 of
              (Some err, w3) \<Rightarrow> (Some (CopyFileError err), logPrintf (FailedCopy err) w3)
            | (None, w3) \<Rightarrow>
               (case os_Remove sourcePath w3 of
                  (Some err, w4) \<Rightarrow>
                    (Some (RemoveSourceError err), logPrintf (FailedRemoveSource err) w4)
                | (None, w4) \<Rightarrow> (None, w4)))"
    by (rule moveFile_takes_fallback [OF mk st rn])
  assume "fst (moveFile lib sourcePath destPath w) = None"
  then have full:
    "moveFile lib sourcePath destPath w = (None, snd (moveFile lib sourcePath destPath w))"
    by (simp add: prod_eq_iff)
  from st have fresh: "nodes w1 destPath = None"
    by (simp add: os_Stat_def split: option.splits)
  from fallback_result [OF fresh full [unfolded eq]] eq
  obtain bs m where src1: "nodes w1 sourcePath = Some (File bs m)"
    and res: "nodes (snd (moveFile lib sourcePath destPath w)) destPath = Some (File bs m)"
      "nodes (snd (moveFile lib sourcePath destPath w)) sourcePath = None"
    by auto
  from os_MkdirAll_files [OF mk] src1 have "nodes w sourcePath = Some (File bs m)"
    by simp
  with res show "\<exists>bs m. nodes w sourcePath = Some (File bs m)
                  \<and> nodes (snd (moveFile lib sourcePath destPath w)) destPath = Some (File bs m)
                  \<and> nodes (snd (moveFile lib sourcePath destPath w)) sourcePath = None"
    by blast
qed

theorem moveFile_fallback_witness:
  "os_MkdirAll (filepath_Dir demoLib ''/out/b.txt'') 493 crossDevice = (None, crossDevice)
   \<and> os_Stat ''/out/b.txt'' crossDevice = Inl NotExist
   \<and> fst (os_Rename ''/dump/b.txt'' ''/out/b.txt'' crossDevice)
       = Some (Refused (Rename ''/dump/b.txt'' ''/out/b.txt''))
   \<and> fst (moveFile demoLib ''/dump/b.txt'' ''/out/b.txt'' crossDevice) = None
   \<and> nodes (snd (moveFile demoLib ''/dump/b.txt'' ''/out/b.txt'' crossDevice)) ''/out/b.txt''
       = Some (File [4, 5] 384)
   \<and> nodes (snd (moveFile demoLib ''/dump/b.txt'' ''/out/b.txt'' crossDevice)) ''/dump/b.txt''
       = None"
proof -
  have mk: "os_MkdirAll (filepath_Dir demoLib ''/out/b.txt'') 493 crossDevice = (None, crossDevice)"
    by (simp add: crossDevice_def run_defs)
  have st: "os_Stat ''/out/b.txt'' crossDevice = Inl NotExist"
    by (simp add: crossDevice_def run_defs)
  have rn: "fst (os_Rename ''/dump/b.txt'' ''/out/b.txt'' crossDevice)
          = Some (Refused (Rename ''/dump/b.txt'' ''/out/b.txt''))"
    by (simp add: crossDevice_def run_defs)
  have ok: "fst (moveFile demoLib ''/dump/b.txt'' ''/out/b.txt'' crossDevice) = None"
    by (simp add: crossDevice_def run_defs)
  have src: "nodes crossDevice ''/dump/b.txt'' = Some (File [4, 5] 384)"
    by (simp add: crossDevice_def demoWorld_def)
  from moveFile_fallback [OF mk st rn] ok src
  have "nodes (snd (moveFile demoLib ''/dump/b.txt'' ''/out/b.txt'' crossDevice)) ''/out/b.txt''
          = Some (File [4, 5] 384)
      \<and> nodes (snd (moveFile demoLib ''/dump/b.txt'' ''/out/b.txt'' crossDevice)) ''/dump/b.txt''
          = None"
    by auto
  with mk st rn ok show ?thesis
    by blast
qed

section \<open>First match wins\<close>

lemma scanRules_skip:
  assumes "\<forall>r \<in> set before. \<not> matchesPattern filename r"
  shows "scanRules lib sourcePath filename (before @ rest) st
       = scanRules lib sourcePath filename rest st"
  using assms
proof (induction before)
  case Nil
  then show ?case by simp
next
  case (Cons r before)
  obtain mc sc mv w where st: "st = (mc, sc, mv, w)"
    by (cases st) auto
  from Cons show ?case
    by (simp add: st)
qed

lemma scanRules_at_match:
  assumes "\<forall>r \<in> set before. \<not> matchesPattern filename r"
    and "matchesPattern filename dest"
  shows "scanRules lib sourcePath filename (before @ dest # after) (movedCount, skippedCount, moved, w) =
           (case moveFile lib sourcePath (filepath_Join lib (Path dest) filename)
                   (logPrintf (Moving sourcePath (filepath_Join lib (Path dest) filename)) w) of
              (Some err, w1) \<Rightarrow>
                (movedCount, skippedCount + 1, moved, logPrintf (ErrorMoving filename err) w1)
            | (None, w1) \<Rightarrow>
                (movedCount + 1, skippedCount, True, logPrintf (Success filename) w1))"
  using assms by (simp add: scanRules_skip Let_def)

lemma scanRules_no_match:
  assumes "\<forall>r \<in> set rules. \<not> matchesPattern filename r"
  shows "scanRules lib sourcePath filename rules st = st"
  using scanRules_skip [OF assms, of lib sourcePath "[]" st] by simp

lemma first_match_split:
  assumes "\<exists>r \<in> set rules. P r"
  shows "\<exists>before dest after. rules = before @ dest # after \<and> P dest \<and> (\<forall>r \<in> set before. \<not> P r)"
  using assms by (metis split_list_first_prop)

lemma organizeEntry_dir:
  assumes "IsDir entry"
  shows "organizeEntry lib config entry st = st"
  using assms by (cases st) (simp add: organizeEntry_def)

lemma organizeEntry_no_match:
  assumes "\<not> IsDir entry"
    and "\<forall>r \<in> set (Destinations config). \<not> matchesPattern (Name entry) r"
  shows "organizeEntry lib config entry (mc, sc, w)
       = (mc, sc + 1, logPrintf (NoMatch (Name entry)) w)"
  using assms by (simp add: organizeEntry_def scanRules_no_match)

lemma organizeEntry_at_match:
  assumes "\<not> IsDir entry"
    and "Destinations config = before @ dest # after"
    and "\<forall>r \<in> set before. \<not> matchesPattern (Name entry) r"
    and "matchesPattern (Name entry) dest"
  shows "organizeEntry lib config entry (mc, sc, w) =
          (case moveFile lib (filepath_Join lib (DumpDirectory config) (Name entry))
                  (filepath_Join lib (Path dest) (Name entry))
                  (logPrintf (Moving (filepath_Join lib (DumpDirectory config) (Name entry))
                                     (filepath_Join lib (Path dest) (Name entry))) w) of
             (Some err, w1) \<Rightarrow>
               (mc, sc + 2,
                logPrintf (NoMatch (Name entry)) (logPrintf (ErrorMoving (Name entry) err) w1))
           | (None, w1) \<Rightarrow> (mc + 1, sc, logPrintf (Success (Name entry)) w1))"
  using assms
  by (simp add: organizeEntry_def scanRules_at_match Let_def split: prod.splits option.splits)

lemma organizeLoop_entry:
  "organizeLoop lib config (pre @ entry # post) st
   = organizeLoop lib config post (organizeEntry lib config entry (organizeLoop lib config pre st))"
  by (simp add: organizeLoop_def)

text \<open>
  C2. For a file of the dump directory, the rules are tried in the order of
  \<^verbatim>\<open>config.Destinations\<close>. At the first rule that matches, \<open>moveFile\<close> is called once, from
  the file's path in the dump directory to the path joined from that rule's directory and
  the filename, and the scan ends there whether the call succeeds or fails: what the
  pass does for the file does not depend on the rules after it, none of which is tried.
  This is the step that \<open>organizeFiles\<close> takes for every entry of the listing, in the
  order of the listing.
\<close>

theorem first_match_wins:
  assumes "\<not> IsDir entry"
    and "Destinations config = before @ dest # after"
    and "\<forall>r \<in> set before. \<not> matchesPattern (Name entry) r"
    and "matchesPattern (Name entry) dest"
  shows "organizeEntry lib config entry (movedCount, skippedCount, w) =
          (case moveFile lib (filepath_Join lib (DumpDirectory config) (Name entry))
                  (filepath_Join lib (Path dest) (Name entry))
                  (logPrintf (Moving (filepath_Join lib (DumpDirectory config) (Name entry))
                                     (filepath_Join lib (Path dest) (Name entry))) w) of
             (Some err, w1) \<Rightarrow>
               (movedCount, skippedCount + 2,
                logPrintf (NoMatch (Name entry)) (logPrintf (ErrorMoving (Name entry) err) w1))
           | (None, w1) \<Rightarrow>
               (movedCount + 1, skippedCount, logPrintf (Success (Name entry)) w1))
       \<and> (os_ReadDir (DumpDirectory config) w0 = Inr (pre @ entry # post) \<longrightarrow>
            organizeFiles lib config w0 =
              (case organizeLoop lib config post
                      (organizeEntry lib config entry (organizeLoop lib config pre (0, 0, w0))) of
                 (m, s, w3) \<Rightarrow> (None, logPrintf (Summary m s) w3)))"
proof (intro conjI impI)
  show "organizeEntry lib config entry (movedCount, skippedCount, w) =
          (case moveFile lib (filepath_Join lib (DumpDirectory config) (Name entry))
                  (filepath_Join lib (Path dest) (Name entry))
                  (logPrintf (Moving (filepath_Join lib (DumpDirectory config) (Name entry))
                                     (filepath_Join lib (Path dest) (Name entry))) w) of
             (Some err, w1) \<Rightarrow>
               (movedCount, skippedCount + 2,
                logPrintf (NoMatch (Name entry)) (logPrintf (ErrorMoving (Name entry) err) w1))
           | (None, w1) \<Rightarrow>
               (movedCount + 1, skippedCount, logPrintf (Success (Name entry)) w1))"
    using assms by (rule organizeEntry_at_match)
next
  assume "os_ReadDir (DumpDirectory config) w0 = Inr (pre @ entry # post)"
  then show "organizeFiles lib config w0 =
              (case organizeLoop lib config post
                      (organizeEntry lib config entry (organizeLoop lib config pre (0, 0, w0))) of
                 (m, s, w3) \<Rightarrow> (None, logPrintf (Summary m s) w3))"
    by (simp add: organizeFiles_def organizeLoop_entry)
qed

theorem first_match_wins_witness:
  "\<not> matchesPattern ''b.txt'' \<lparr>Path = ''/out'', Prefix = ''a'', Suffix = []\<rparr>
   \<and> matchesPattern ''b.txt'' \<lparr>Path = ''/other'', Prefix = [], Suffix = ''.txt''\<rparr>
   \<and> matchesPattern ''b.txt'' \<lparr>Path = ''/third'', Prefix = ''b'', Suffix = []\<rparr>
   \<and> matchesPattern ''a.txt'' \<lparr>Path = ''/out'', Prefix = ''a'', Suffix = []\<rparr>
   \<and> matchesPattern ''a.txt'' \<lparr>Path = ''/other'', Prefix = [], Suffix = ''.txt''\<rparr>
   \<and> fst (organizeEntry demoLib overlapConfig \<lparr>Name = ''b.txt'', IsDir = False\<rparr> (0, 0, demoWorld)) = 1
   \<and> nodes (snd (snd (organizeEntry demoLib overlapConfig \<lparr>Name = ''b.txt'', IsDir = False\<rparr>
                         (0, 0, demoWorld)))) ''/other/b.txt'' = Some (File [4, 5] 384)
   \<and> nodes (snd (snd (organizeEntry demoLib overlapConfig \<lparr>Name = ''b.txt'', IsDir = False\<rparr>
                         (0, 0, demoWorld)))) ''/third/b.txt'' = None
   \<and> fst (organizeEntry demoLib overlapConfig \<lparr>Name = ''a.txt'', IsDir = False\<rparr> (0, 0, demoWorld)) = 0
   \<and> nodes (snd (snd (organizeEntry demoLib overlapConfig \<lparr>Name = ''a.txt'', IsDir = False\<rparr>
                         (0, 0, demoWorld)))) ''/other/a.txt'' = None
   \<and> nodes (snd (snd (organizeEntry demoLib overlapConfig \<lparr>Name = ''a.txt'', IsDir = False\<rparr>
                         (0, 0, demoWorld)))) ''/dump/a.txt'' = Some (File [1, 2, 3] 420)
   \<and> os_ReadDir (DumpDirectory overlapConfig) demoWorld
        = Inr ([\<lparr>Name = ''a.txt'', IsDir = False\<rparr>] @ \<lparr>Name = ''b.txt'', IsDir = False\<rparr>
                 # [\<lparr>Name = ''sub'', IsDir = True\<rparr>])
   \<and> nodes (snd (organizeFiles demoLib overlapConfig demoWorld)) ''/other/b.txt''
        = Some (File [4, 5] 384)
   \<and> nodes (snd (organizeFiles demoLib overlapConfig demoWorld)) ''/third/b.txt'' = None"
proof -
  let ?a = "\<lparr>Name = ''a.txt'', IsDir = False\<rparr>"
  let ?b = "\<lparr>Name = ''b.txt'', IsDir = False\<rparr>"
  let ?sub = "\<lparr>Name = ''sub'', IsDir = True\<rparr>"
  let ?r1 = "\<lparr>Path = ''/out'', Prefix = ''a'', Suffix = []\<rparr>"
  let ?r2 = "\<lparr>Path = ''/other'', Prefix = [], Suffix = ''.txt''\<rparr>"
  let ?r3 = "\<lparr>Path = ''/third'', Prefix = ''b'', Suffix = []\<rparr>"
  have b1: "\<not> matchesPattern ''b.txt'' ?r1" and b2: "matchesPattern ''b.txt'' ?r2"
    and b3: "matchesPattern ''b.txt'' ?r3" and a1: "matchesPattern ''a.txt'' ?r1"
    and a2: "matchesPattern ''a.txt'' ?r2"
    by (simp_all add: matchesPattern_def strings_HasPrefix_def strings_HasSuffix_def)
  have fileb: "\<not> IsDir ?b" and filea: "\<not> IsDir ?a"
    by simp_all
  have rulesb: "Destinations overlapConfig = [?r1] @ ?r2 # [?r3]"
    and rulesa: "Destinations overlapConfig = [] @ ?r1 # [?r2, ?r3]"
    by (simp_all add: overlapConfig_def)
  have earlierb: "\<forall>r \<in> set [?r1]. \<not> matchesPattern (Name ?b) r"
    using b1 by simp
  have earliera: "\<forall>r \<in> set []. \<not> matchesPattern (Name ?a) r"
    by simp
  have matchb: "matchesPattern (Name ?b) ?r2"
    using b2 by simp
  have matcha: "matchesPattern (Name ?a) ?r1"
    using a1 by simp
  have listed: "os_ReadDir (DumpDirectory overlapConfig) demoWorld = Inr ([?a] @ ?b # [?sub])"
    by (simp add: os_ReadDir_def overlapConfig_def demoWorld_def)
  note forb = first_match_wins [OF fileb rulesb earlierb matchb,
      where lib = demoLib and movedCount = 0 and skippedCount = 0 and w = demoWorld
        and ?w0.0 = demoWorld and pre = "[?a]" and post = "[?sub]"]
  note fora = first_match_wins [OF filea rulesa earliera matcha,
      where lib = demoLib and movedCount = 0 and skippedCount = 0 and w = demoWorld]
  have srcb: "filepath_Join demoLib (DumpDirectory overlapConfig) ''b.txt'' = ''/dump/b.txt''"
    and dstb: "filepath_Join demoLib ''/other'' ''b.txt'' = ''/other/b.txt''"
    and srca: "filepath_Join demoLib (DumpDirectory overlapConfig) ''a.txt'' = ''/dump/a.txt''"
    and dsta: "filepath_Join demoLib ''/out'' ''a.txt'' = ''/out/a.txt''"
    by (simp_all add: demoLib_def overlapConfig_def)
  have mvb: "fst (moveFile demoLib ''/dump/b.txt'' ''/other/b.txt''
                    (logPrintf (Moving ''/dump/b.txt'' ''/other/b.txt'') demoWorld)) = None"
    "nodes (snd (moveFile demoLib ''/dump/b.txt'' ''/other/b.txt''
                    (logPrintf (Moving ''/dump/b.txt'' ''/other/b.txt'') demoWorld))) ''/other/b.txt''
       = Some (File [4, 5] 384)"
    "nodes (snd (moveFile demoLib ''/dump/b.txt'' ''/other/b.txt''
                    (logPrintf (Moving ''/dump/b.txt'' ''/other/b.txt'') demoWorld))) ''/third/b.txt''
       = None"
    by (simp_all add: run_defs)
  have mva: "fst (moveFile demoLib ''/dump/a.txt'' ''/out/a.txt''
                    (logPrintf (Moving ''/dump/a.txt'' ''/out/a.txt'') demoWorld))
               = Some (AlreadyExistsError ''/out/a.txt'')"
    "nodes (snd (moveFile demoLib ''/dump/a.txt'' ''/out/a.txt''
                    (logPrintf (Moving ''/dump/a.txt'' ''/out/a.txt'') demoWorld))) = nodes demoWorld"
    by (simp_all add: run_defs)
  have old: "nodes demoWorld ''/other/a.txt'' = None"
    "nodes demoWorld ''/dump/a.txt'' = Some (File [1, 2, 3] 420)"
    by (simp_all add: demoWorld_def)
  from forb [THEN conjunct1] mvb
  have resb: "fst (organizeEntry demoLib overlapConfig ?b (0, 0, demoWorld)) = 1"
    "nodes (snd (snd (organizeEntry demoLib overlapConfig ?b (0, 0, demoWorld)))) ''/other/b.txt''
       = Some (File [4, 5] 384)"
    "nodes (snd (snd (organizeEntry demoLib overlapConfig ?b (0, 0, demoWorld)))) ''/third/b.txt''
       = None"
    by (auto simp: srcb dstb split: prod.splits option.splits)
  from fora [THEN conjunct1] mva old
  have resa: "fst (organizeEntry demoLib overlapConfig ?a (0, 0, demoWorld)) = 0"
    "nodes (snd (snd (organizeEntry demoLib overlapConfig ?a (0, 0, demoWorld)))) ''/other/a.txt''
       = None"
    "nodes (snd (snd (organizeEntry demoLib overlapConfig ?a (0, 0, demoWorld)))) ''/dump/a.txt''
       = Some (File [1, 2, 3] 420)"
    by (auto simp: srca dsta split: prod.splits option.splits)
  from forb [THEN conjunct2, rule_format, OF listed]
  have pass: "nodes (snd (organizeFiles demoLib overlapConfig demoWorld)) ''/other/b.txt''
        = Some (File [4, 5] 384)"
    "nodes (snd (organizeFiles demoLib overlapConfig demoWorld)) ''/third/b.txt'' = None"
    by (simp_all add: organizeLoop_def organizeEntry_def run_defs overlapConfig_def)
  from b1 b2 b3 a1 a2 resb resa listed pass show ?thesis
    by blast
qed

section \<open>The log only grows\<close>

lemma copyFile_log: "prefix (logged w) (logged (snd (copyFile sourcePath destPath w)))"
proof (cases "os_Open sourcePath w")
  case (Inl err)
  then show ?thesis
    by (simp add: copyFile_def deferredClose_def)
next
  case (Inr sourceFile)
  note op = this
  obtain r w1 where cr: "os_Create destPath w = (r, w1)"
    by (cases "os_Create destPath w") auto
  then have l1: "logged w1 = logged w"
    using os_keep_log(3) [of destPath w] by simp
  show ?thesis
  proof (cases r)
    case (Inl err)
    with op cr l1 show ?thesis
      by (simp add: copyFile_def deferredClose_def closeFile_def)
  next
    case (Inr destFile)
    note dst = this
    obtain c w2 where cp: "io_Copy destFile sourceFile w1 = (c, w2)"
      by (cases "io_Copy destFile sourceFile w1") auto
    then have l2: "logged w2 = logged w"
      using os_keep_log(4) [of destFile sourceFile w1] l1 by simp
    show ?thesis
    proof (cases c)
      case (Some cerr)
      with op cr dst cp l2 show ?thesis
        by (simp add: copyFile_def deferredClose_def closeFile_def)
    next
      case None
      note copied = this
      show ?thesis
      proof (cases "os_Stat sourcePath w2")
        case (Inl err)
        with op cr dst cp copied l2 show ?thesis
          by (simp add: copyFile_def deferredClose_def closeFile_def)
      next
        case (Inr sourceInfo)
        obtain r3 w3 where ch: "os_Chmod destPath (fileMode sourceInfo) w2 = (r3, w3)"
          by (cases "os_Chmod destPath (fileMode sourceInfo) w2") auto
        then have "logged w3 = logged w"
          using os_keep_log(5) [of destPath "fileMode sourceInfo" w2] l2 by simp
        with op cr dst cp copied Inr ch show ?thesis
          by (simp add: copyFile_def deferredClose_def closeFile_def)
      qed
    qed
  qed
qed

lemma moveFile_log: "prefix (logged w) (logged (snd (moveFile lib sourcePath destPath w)))"
proof -
  obtain r1 w1 where mk: "os_MkdirAll (filepath_Dir lib destPath) 493 w = (r1, w1)"
    by (cases "os_MkdirAll (filepath_Dir lib destPath) 493 w") auto
  then have l1: "logged w1 = logged w"
    using os_keep_log(1) [of "filepath_Dir lib destPath" 493 w] by simp
  show ?thesis
  proof (cases r1)
    case (Some err)
    with mk l1 show ?thesis
      by (simp add: moveFile_def)
  next
    case None
    note made = this
    show ?thesis
    proof (cases "os_Stat destPath w1")
      case (Inr info)
      with mk made l1 show ?thesis
        by (simp add: moveFile_def)
    next
      case (Inl e)
      note absent = this
      obtain r2 w2 where rn: "os_Rename sourcePath destPath w1 = (r2, w2)"
        by (cases "os_Rename sourcePath destPath w1") auto
      then have l2: "logged w2 = logged w"
        using os_keep_log(2) [of sourcePath destPath w1] l1 by simp
      show ?thesis
      proof (cases r2)
        case None
        with mk made absent rn l2 show ?thesis
          by (simp add: moveFile_def)
      next
        case (Some e2)
        note refused = this
        obtain r3 w3 where cp: "copyFile sourcePath destPath w2 = (r3, w3)"
          by (cases "copyFile sourcePath destPath w2") auto
        then have l3: "prefix (logged w) (logged w3)"
          using copyFile_log [of w2 sourcePath destPath] l2 by simp
        show ?thesis
        proof (cases r3)
          case (Some err)
          with mk made absent rn refused cp l3 show ?thesis
            by (simp add: moveFile_def prefix_order.trans)
        next
          case None
          obtain r4 w4 where rm: "os_Remove sourcePath w3 = (r4, w4)"
            by (cases "os_Remove sourcePath w3") auto
          then have "logged w4 = logged w3"
            using os_keep_log(6) [of sourcePath w3] by simp
          with l3 have "prefix (logged w) (logged w4)"
            by simp
          with mk made absent rn refused cp None rm show ?thesis
            by (cases r4) (simp_all add: moveFile_def prefix_order.trans)
        qed
      qed
    qed
  qed
qed


section \<open>Errors during a pass\<close>

lemma organizeEntry_reports:
  assumes nd: "\<not> IsDir entry"
  shows "\<exists>ls. logged (snd (snd (organizeEntry lib config entry (mc, sc, w)))) = logged w @ ls
            \<and> (Success (Name entry) \<in> set ls \<or> NoMatch (Name entry) \<in> set ls)"
proof (cases "\<exists>r \<in> set (Destinations config). matchesPattern (Name entry) r")
  case False
  with nd show ?thesis
    by (simp add: organizeEntry_no_match)
next
  case True
  then obtain before dest after where split: "Destinations config = before @ dest # after"
    "matchesPattern (Name entry) dest" "\<forall>r \<in> set before. \<not> matchesPattern (Name entry) r"
    using first_match_split [of "Destinations config" "matchesPattern (Name entry)"] by blast
  let ?src = "filepath_Join lib (DumpDirectory config) (Name entry)"
  let ?dst = "filepath_Join lib (Path dest) (Name entry)"
  obtain r w1 where mv: "moveFile lib ?src ?dst (logPrintf (Moving ?src ?dst) w) = (r, w1)"
    by (cases "moveFile lib ?src ?dst (logPrintf (Moving ?src ?dst) w)") auto
  from moveFile_log [of "logPrintf (Moving ?src ?dst) w" lib ?src ?dst] mv
  obtain l1 where "logged w1 = (logged w @ [Moving ?src ?dst]) @ l1"
    by (auto simp: prefix_def)
  with mv show ?thesis
    by (cases r) (simp_all add: organizeEntry_at_match [OF nd split(1) split(3) split(2)])
qed

lemma organizeLoop_reports:
  "\<exists>ls. logged (snd (snd (organizeLoop lib config files (mc, sc, w)))) = logged w @ ls
       \<and> (\<forall>f \<in> set files. \<not> IsDir f \<longrightarrow> Success (Name f) \<in> set ls \<or> NoMatch (Name f) \<in> set ls)"
proof (induction files arbitrary: mc sc w)
  case Nil
  then show ?case
    by (simp add: organizeLoop_def)
next
  case (Cons entry files)
  obtain m1 s1 w1 where step: "organizeEntry lib config entry (mc, sc, w) = (m1, s1, w1)"
    by (cases "organizeEntry lib config entry (mc, sc, w)") auto
  have unfold: "organizeLoop lib config (entry # files) (mc, sc, w)
              = organizeLoop lib config files (m1, s1, w1)"
    by (simp add: organizeLoop_def step)
  have "\<exists>l1. logged w1 = logged w @ l1
           \<and> (\<not> IsDir entry \<longrightarrow> Success (Name entry) \<in> set l1 \<or> NoMatch (Name entry) \<in> set l1)"
  proof (cases "IsDir entry")
    case True
    with step organizeEntry_dir [of entry lib config "(mc, sc, w)"] show ?thesis
      by simp
  next
    case False
    with step organizeEntry_reports [of entry lib config mc sc w] show ?thesis
      by simp
  qed
  then obtain l1 where l1: "logged w1 = logged w @ l1"
    "\<not> IsDir entry \<longrightarrow> Success (Name entry) \<in> set l1 \<or> NoMatch (Name entry) \<in> set l1"
    by blast
  from Cons.IH [of m1 s1 w1] obtain l2
    where l2: "logged (snd (snd (organizeLoop lib config files (m1, s1, w1)))) = logged w1 @ l2"
      "\<forall>f \<in> set files. \<not> IsDir f \<longrightarrow> Success (Name f) \<in> set l2 \<or> NoMatch (Name f) \<in> set l2"
    by blast
  from l1 l2 have "logged (snd (snd (organizeLoop lib config (entry # files) (mc, sc, w))))
                 = logged w @ (l1 @ l2)"
    by (simp add: unfold)
  moreover from l1(2) l2(2)
  have "\<forall>f \<in> set (entry # files). \<not> IsDir f \<longrightarrow>
          Success (Name f) \<in> set (l1 @ l2) \<or> NoMatch (Name f) \<in> set (l1 @ l2)"
    by auto
  ultimately show ?case
    by blast
qed

lemma organizeFiles_listed:
  assumes "os_ReadDir (DumpDirectory config) w = Inr files"
    and "organizeLoop lib config files (0, 0, w) = (movedCount, skippedCount, w1)"
  shows "organizeFiles lib config w = (None, logPrintf (Summary movedCount skippedCount) w1)"
  using assms by (simp add: organizeFiles_def)

text \<open>
  C6. A directory listing that fails is the error of the whole call. When the listing
  succeeds the call returns no error, whatever happens to the single files, and every
  file listed is dealt with: the lines logged during the pass report each of them as
  moved or as not moved. A file whose relocation fails leaves \<open>movedCount\<close> as it was
  and raises \<open>skippedCount\<close> (by two: once where the error is caught and once more
  after the scan of the rules, where \<open>moved\<close> is still false).
\<close>

theorem organize_error_policy:
  "(os_ReadDir (DumpDirectory config) w = Inl e \<longrightarrow>
      organizeFiles lib config w = (Some (ReadDirError e), logPrintf (FailedReadDump e) w))
   \<and> (os_ReadDir (DumpDirectory config) w = Inr files \<longrightarrow>
        fst (organizeFiles lib config w) = None
      \<and> (\<exists>ls. logged (snd (organizeFiles lib config w)) = logged w @ ls
            \<and> (\<forall>f \<in> set files. \<not> IsDir f \<longrightarrow>
                  Success (Name f) \<in> set ls \<or> NoMatch (Name f) \<in> set ls)))
   \<and> (\<not> IsDir entry \<and> Destinations config = before @ dest # after
        \<and> (\<forall>r \<in> set before. \<not> matchesPattern (Name entry) r)
        \<and> matchesPattern (Name entry) dest
        \<and> fst (moveFile lib (filepath_Join lib (DumpDirectory config) (Name entry))
                  (filepath_Join lib (Path dest) (Name entry))
                  (logPrintf (Moving (filepath_Join lib (DumpDirectory config) (Name entry))
                                     (filepath_Join lib (Path dest) (Name entry))) w)) = Some err
      \<longrightarrow> (\<exists>w'. organizeEntry lib config entry (movedCount, skippedCount, w)
                  = (movedCount, skippedCount + 2, w')))"
proof (intro conjI impI)
  assume "os_ReadDir (DumpDirectory config) w = Inl e"
  then show "organizeFiles lib config w = (Some (ReadDirError e), logPrintf (FailedReadDump e) w)"
    by (simp add: organizeFiles_def)
next
  assume listed: "os_ReadDir (DumpDirectory config) w = Inr files"
  obtain m s w1 where loop: "organizeLoop lib config files (0, 0, w) = (m, s, w1)"
    by (cases "organizeLoop lib config files (0, 0, w)") auto
  note res = organizeFiles_listed [OF listed loop]
  from res show "fst (organizeFiles lib config w) = None"
    by simp
  from organizeLoop_reports [of lib config files 0 0 w] loop
  obtain ls where ls: "logged w1 = logged w @ ls"
    "\<forall>f \<in> set files. \<not> IsDir f \<longrightarrow> Success (Name f) \<in> set ls \<or> NoMatch (Name f) \<in> set ls"
    by auto
  from res ls(1) have "logged (snd (organizeFiles lib config w)) = logged w @ (ls @ [Summary m s])"
    by simp
  moreover from ls(2)
  have "\<forall>f \<in> set files. \<not> IsDir f \<longrightarrow>
          Success (Name f) \<in> set (ls @ [Summary m s]) \<or> NoMatch (Name f) \<in> set (ls @ [Summary m s])"
    by auto
  ultimately show "\<exists>ls. logged (snd (organizeFiles lib config w)) = logged w @ ls
            \<and> (\<forall>f \<in> set files. \<not> IsDir f \<longrightarrow>
                  Success (Name f) \<in> set ls \<or> NoMatch (Name f) \<in> set ls)"
    by blast
next
  assume h: "\<not> IsDir entry \<and> Destinations config = before @ dest # after
        \<and> (\<forall>r \<in> set before. \<not> matchesPattern (Name entry) r)
        \<and> matchesPattern (Name entry) dest
        \<and> fst (moveFile lib (filepath_Join lib (DumpDirectory config) (Name entry))
                  (filepath_Join lib (Path dest) (Name entry))
                  (logPrintf (Moving (filepath_Join lib (DumpDirectory config) (Name entry))
                                     (filepath_Join lib (Path dest) (Name entry))) w)) = Some err"
  then have eq: "organizeEntry lib config entry (movedCount, skippedCount, w) =
          (case moveFile lib (filepath_Join lib (DumpDirectory config) (Name entry))
                  (filepath_Join lib (Path dest) (Name entry))
                  (logPrintf (Moving (filepath_Join lib (DumpDirectory config) (Name entry))
                                     (filepath_Join lib (Path dest) (Name entry))) w) of
             (Some err, w1) \<Rightarrow>
               (movedCount, skippedCount + 2,
                logPrintf (NoMatch (Name entry)) (logPrintf (ErrorMoving (Name entry) err) w1))
           | (None, w1) \<Rightarrow> (movedCount + 1, skippedCount, logPrintf (Success (Name entry)) w1))"
    by (intro organizeEntry_at_match) blast+
  from h show "\<exists>w'. organizeEntry lib config entry (movedCount, skippedCount, w)
                  = (movedCount, skippedCount + 2, w')"
    unfolding eq by (auto split: prod.splits)
qed

theorem organize_error_policy_witness:
  "os_ReadDir (DumpDirectory (demoConfig\<lparr>DumpDirectory := ''/nowhere''\<rparr>)) demoWorld = Inl NotExist
   \<and> fst (organizeFiles demoLib (demoConfig\<lparr>DumpDirectory := ''/nowhere''\<rparr>) demoWorld)
       = Some (ReadDirError NotExist)
   \<and> fst (organizeFiles demoLib demoConfig demoWorld) = None
   \<and> (Success ''a.txt'' \<in> set (logged (snd (organizeFiles demoLib demoConfig demoWorld)))
        \<or> NoMatch ''a.txt'' \<in> set (logged (snd (organizeFiles demoLib demoConfig demoWorld))))
   \<and> (Success ''b.txt'' \<in> set (logged (snd (organizeFiles demoLib demoConfig demoWorld)))
        \<or> NoMatch ''b.txt'' \<in> set (logged (snd (organizeFiles demoLib demoConfig demoWorld))))
   \<and> (\<exists>w'. organizeEntry demoLib demoConfig \<lparr>Name = ''a.txt'', IsDir = False\<rparr> (0, 0, demoWorld)
              = (0, 2, w'))"
proof -
  let ?a = "\<lparr>Name = ''a.txt'', IsDir = False\<rparr>"
  let ?b = "\<lparr>Name = ''b.txt'', IsDir = False\<rparr>"
  let ?sub = "\<lparr>Name = ''sub'', IsDir = True\<rparr>"
  let ?r1 = "\<lparr>Path = ''/out'', Prefix = ''a'', Suffix = []\<rparr>"
  let ?r2 = "\<lparr>Path = ''/other'', Prefix = [], Suffix = ''.txt''\<rparr>"
  have missing:
    "os_ReadDir (DumpDirectory (demoConfig\<lparr>DumpDirectory := ''/nowhere''\<rparr>)) demoWorld = Inl NotExist"
    by (simp add: os_ReadDir_def demoWorld_def)
  have listed: "os_ReadDir (DumpDirectory demoConfig) demoWorld = Inr [?a, ?b, ?sub]"
    by (simp add: os_ReadDir_def demoWorld_def demoConfig_def)
  have fresh: "logged demoWorld = []"
    by (simp add: demoWorld_def)
  have failing: "\<not> IsDir ?a \<and> Destinations demoConfig = [] @ ?r1 # [?r2]
        \<and> (\<forall>r \<in> set []. \<not> matchesPattern (Name ?a) r)
        \<and> matchesPattern (Name ?a) ?r1
        \<and> fst (moveFile demoLib (filepath_Join demoLib (DumpDirectory demoConfig) (Name ?a))
                  (filepath_Join demoLib (Path ?r1) (Name ?a))
                  (logPrintf (Moving (filepath_Join demoLib (DumpDirectory demoConfig) (Name ?a))
                                     (filepath_Join demoLib (Path ?r1) (Name ?a))) demoWorld))
            = Some (AlreadyExistsError ''/out/a.txt'')"
    by (simp add: run_defs)
  note fatal = organize_error_policy
    [where config = "demoConfig\<lparr>DumpDirectory := ''/nowhere''\<rparr>" and w = demoWorld
       and e = NotExist and lib = demoLib, THEN conjunct1, rule_format, OF missing]
  note pass = organize_error_policy
    [where config = demoConfig and w = demoWorld and files = "[?a, ?b, ?sub]" and lib = demoLib,
      THEN conjunct2, THEN conjunct1, rule_format, OF listed]
  note skipped = organize_error_policy
    [where config = demoConfig and w = demoWorld and lib = demoLib and entry = ?a
       and before = "[]" and dest = ?r1 and after = "[?r2]"
       and err = "AlreadyExistsError ''/out/a.txt''" and movedCount = 0 and skippedCount = 0,
      THEN conjunct2, THEN conjunct2, rule_format, OF failing]
  from fatal have one: "fst (organizeFiles demoLib (demoConfig\<lparr>DumpDirectory := ''/nowhere''\<rparr>) demoWorld)
       = Some (ReadDirError NotExist)"
    by simp
  from pass fresh have two: "fst (organizeFiles demoLib demoConfig demoWorld) = None"
    and three: "\<forall>f \<in> set [?a, ?b, ?sub]. \<not> IsDir f \<longrightarrow>
        Success (Name f) \<in> set (logged (snd (organizeFiles demoLib demoConfig demoWorld)))
        \<or> NoMatch (Name f) \<in> set (logged (snd (organizeFiles demoLib demoConfig demoWorld)))"
    by auto
  from three have four:
    "Success ''a.txt'' \<in> set (logged (snd (organizeFiles demoLib demoConfig demoWorld)))
        \<or> NoMatch ''a.txt'' \<in> set (logged (snd (organizeFiles demoLib demoConfig demoWorld)))"
    "Success ''b.txt'' \<in> set (logged (snd (organizeFiles demoLib demoConfig demoWorld)))
        \<or> NoMatch ''b.txt'' \<in> set (logged (snd (organizeFiles demoLib demoConfig demoWorld)))"
    by simp_all
  from skipped have five:
    "\<exists>w'. organizeEntry demoLib demoConfig ?a (0, 0, demoWorld) = (0, 2, w')"
    by (simp add: numeral_2_eq_2)
  from missing one two four five show ?thesis
    by blast
qed

section \<open>The two counters\<close>

text \<open>
  C9 says that every file listed adds one to exactly one counter, so that the counters
  add up to the number of files. In the example world the listing has two files and a
  subdirectory; \<open>a.txt\<close> matches a rule and cannot be moved, because the destination
  exists, and \<open>b.txt\<close> is moved. The pass ends with one file moved and two skipped: the
  file that could not be moved has been counted twice.
\<close>

theorem failed_move_counted_twice:
  "os_ReadDir (DumpDirectory demoConfig) demoWorld
     = Inr [\<lparr>Name = ''a.txt'', IsDir = False\<rparr>, \<lparr>Name = ''b.txt'', IsDir = False\<rparr>,
            \<lparr>Name = ''sub'', IsDir = True\<rparr>]
   \<and> fst (organizeLoop demoLib demoConfig
            [\<lparr>Name = ''a.txt'', IsDir = False\<rparr>, \<lparr>Name = ''b.txt'', IsDir = False\<rparr>,
             \<lparr>Name = ''sub'', IsDir = True\<rparr>] (0, 0, demoWorld)) = 1
   \<and> fst (snd (organizeLoop demoLib demoConfig
            [\<lparr>Name = ''a.txt'', IsDir = False\<rparr>, \<lparr>Name = ''b.txt'', IsDir = False\<rparr>,
             \<lparr>Name = ''sub'', IsDir = True\<rparr>] (0, 0, demoWorld))) = 2
   \<and> length (filter (\<lambda>f. \<not> IsDir f)
            [\<lparr>Name = ''a.txt'', IsDir = False\<rparr>, \<lparr>Name = ''b.txt'', IsDir = False\<rparr>,
             \<lparr>Name = ''sub'', IsDir = True\<rparr>]) = 2
   \<and> last (logged (snd (organizeFiles demoLib demoConfig demoWorld))) = Summary 1 2"
  by (simp add: pass_defs run_defs)

text \<open>
  C5 says that the counters are returned to the caller. What \<open>organizeFiles\<close> returns is
  an error or nothing: two passes that count differently return the same value.
\<close>

theorem organizeFiles_returns_no_counts:
  "fst (organizeFiles demoLib demoConfig demoWorld)
     = fst (organizeFiles demoLib (demoConfig\<lparr>Destinations := []\<rparr>) demoWorld)
   \<and> last (logged (snd (organizeFiles demoLib demoConfig demoWorld))) = Summary 1 2
   \<and> last (logged (snd (organizeFiles demoLib (demoConfig\<lparr>Destinations := []\<rparr>) demoWorld)))
       = Summary 0 2"
  by (simp add: pass_defs run_defs)

text \<open>
  C5, amended. When the directory listing succeeds, \<open>organizeFiles\<close> returns no error, and
  the last line it logs is the summary, with the values the two counters have when the
  loop over the directory entries ends.
\<close>

theorem organizeFiles_reports_counts:
  assumes "os_ReadDir (DumpDirectory config) w = Inr files"
  shows "fst (organizeFiles lib config w) = None
       \<and> last (logged (snd (organizeFiles lib config w)))
           = Summary (fst (organizeLoop lib config files (0, 0, w)))
                     (fst (snd (organizeLoop lib config files (0, 0, w))))"
  using assms by (simp add: organizeFiles_def split: prod.splits)

theorem organizeFiles_reports_counts_witness:
  "os_ReadDir (DumpDirectory (demoConfig\<lparr>Destinations := []\<rparr>)) demoWorld
     = Inr [\<lparr>Name = ''a.txt'', IsDir = False\<rparr>, \<lparr>Name = ''b.txt'', IsDir = False\<rparr>,
            \<lparr>Name = ''sub'', IsDir = True\<rparr>]
   \<and> fst (organizeFiles demoLib (demoConfig\<lparr>Destinations := []\<rparr>) demoWorld) = None
   \<and> last (logged (snd (organizeFiles demoLib (demoConfig\<lparr>Destinations := []\<rparr>) demoWorld)))
       = Summary 0 2"
proof -
  let ?files = "[\<lparr>Name = ''a.txt'', IsDir = False\<rparr>, \<lparr>Name = ''b.txt'', IsDir = False\<rparr>,
            \<lparr>Name = ''sub'', IsDir = True\<rparr>]"
  have listed: "os_ReadDir (DumpDirectory (demoConfig\<lparr>Destinations := []\<rparr>)) demoWorld = Inr ?files"
    by (simp add: os_ReadDir_def demoWorld_def demoConfig_def)
  have counts: "fst (organizeLoop demoLib (demoConfig\<lparr>Destinations := []\<rparr>) ?files (0, 0, demoWorld)) = 0"
    "fst (snd (organizeLoop demoLib (demoConfig\<lparr>Destinations := []\<rparr>) ?files (0, 0, demoWorld))) = 2"
    by (simp_all add: organizeLoop_def organizeEntry_def run_defs)
  from organizeFiles_reports_counts [OF listed, of demoLib] counts listed show ?thesis
    by simp
qed

section \<open>A subscription that fails\<close>

text \<open>
  C7 says that the process ends when the watcher cannot be subscribed to the dump
  directory. With everything else in order and \<^verbatim>\<open>watcher.Add\<close> failing, \<open>main\<close> goes on to
  wait for a signal with no subscription; the step before it, creating the watcher, does
  end the process when it fails.
\<close>

theorem subscription_failure_not_fatal:
  "main_startup \<lparr>logFileOpens = True, loadedConfig = Some demoConfig,
                  watcherCreated = True, watcherAdded = False\<rparr> demoWorld = Inr False
   \<and> main_startup \<lparr>logFileOpens = True, loadedConfig = Some demoConfig,
                    watcherCreated = False, watcherAdded = False\<rparr> demoWorld = Inl WatcherFatal"
  by (simp add: main_startup_def os_Stat_def demoConfig_def demoWorld_def)

section \<open>Debounce\<close>

lemma spent_simps [simp]:
  "spent []"
  "spent (old @ [t]) \<longleftrightarrow> spent old \<and> \<not> pending t"
  by (auto simp: spent_def)

lemma spent_filter:
  assumes "spent old"
  shows "filter (\<lambda>t. pending t \<and> P t) old = []" and "filter pending old = []"
  using assms by (auto simp: spent_def filter_empty_conv)

lemma spent_map:
  assumes "spent old"
  shows "map (\<lambda>t. if pending t \<and> P t then t\<lparr>pending := False\<rparr> else t) old = old"
  using assms by (auto simp: spent_def intro: map_idI)

lemma elapse_early:
  assumes "spent old" and "now < d"
  shows "elapse now \<lparr>timers = old @ [\<lparr>due = d, pending = True\<rparr>], timer = p, passes = ps\<rparr>
       = \<lparr>timers = old @ [\<lparr>due = d, pending = True\<rparr>], timer = p, passes = ps\<rparr>"
  using assms by (simp add: elapse_def spent_filter spent_map)

lemma elapse_late:
  assumes "spent old" and "d \<le> now"
  shows "elapse now \<lparr>timers = old @ [\<lparr>due = d, pending = True\<rparr>], timer = p, passes = ps\<rparr>
       = \<lparr>timers = old @ [\<lparr>due = d, pending = False\<rparr>], timer = p, passes = ps @ [d]\<rparr>"
  using assms by (simp add: elapse_def spent_filter spent_map)

lemma event_step:
  "onNotification now Event \<lparr>timers = old @ [t], timer = Some (length old), passes = ps\<rparr>
   = \<lparr>timers = (old @ [t\<lparr>pending := False\<rparr>]) @ [\<lparr>due = now + debounceDelay, pending = True\<rparr>],
      timer = Some (length (old @ [t\<lparr>pending := False\<rparr>])), passes = ps\<rparr>"
  by (simp add: onNotification_def timer_Stop_def time_AfterFunc_def)

lemma first_event:
  "watchLoop ((now, Event) # rest) started
   = watchLoop rest \<lparr>timers = [] @ [\<lparr>due = now + debounceDelay, pending = True\<rparr>],
                     timer = Some (length ([] :: Timer list)), passes = []\<rparr>"
  by (simp add: started_def elapse_def onNotification_def time_AfterFunc_def)

lemma watchLoop_burst:
  assumes "spent old"
    and "successively (\<lambda>a b. a \<le> b \<and> b < a + debounceDelay) (t0 # ts)"
  shows "\<exists>old'. spent old' \<and>
           watchLoop (map (\<lambda>t. (t, Event)) ts)
             \<lparr>timers = old @ [\<lparr>due = t0 + debounceDelay, pending = True\<rparr>],
              timer = Some (length old), passes = ps\<rparr>
         = \<lparr>timers = old' @ [\<lparr>due = last (t0 # ts) + debounceDelay, pending = True\<rparr>],
            timer = Some (length old'), passes = ps\<rparr>"
  using assms
proof (induction ts arbitrary: t0 old)
  case Nil
  then show ?case by auto
next
  case (Cons t ts)
  from Cons.prems have near: "t < t0 + debounceDelay"
    and chain: "successively (\<lambda>a b. a \<le> b \<and> b < a + debounceDelay) (t # ts)"
    by simp_all
  let ?old = "old @ [\<lparr>due = t0 + debounceDelay, pending = False\<rparr>]"
  have cancelled: "spent ?old"
    using Cons.prems(1) by simp
  have step: "onNotification t Event
          (elapse t \<lparr>timers = old @ [\<lparr>due = t0 + debounceDelay, pending = True\<rparr>],
                     timer = Some (length old), passes = ps\<rparr>)
        = \<lparr>timers = ?old @ [\<lparr>due = t + debounceDelay, pending = True\<rparr>],
           timer = Some (length ?old), passes = ps\<rparr>"
    by (simp only: elapse_early [OF Cons.prems(1) near] event_step) simp
  from Cons.IH [OF cancelled chain] obtain old'
    where "spent old'"
      and "watchLoop (map (\<lambda>t. (t, Event)) ts)
             \<lparr>timers = ?old @ [\<lparr>due = t + debounceDelay, pending = True\<rparr>],
              timer = Some (length ?old), passes = ps\<rparr>
         = \<lparr>timers = old' @ [\<lparr>due = last (t # ts) + debounceDelay, pending = True\<rparr>],
            timer = Some (length old'), passes = ps\<rparr>"
    by blast
  with step show ?case
    by (auto simp del: elapse_def)
qed

lemma watchLoop_sparse:
  assumes "spent old"
    and "successively (\<lambda>a b. a + debounceDelay < b) (t0 # ts)"
  shows "\<exists>old'. spent old' \<and>
           watchLoop (map (\<lambda>t. (t, Event)) ts)
             \<lparr>timers = old @ [\<lparr>due = t0 + debounceDelay, pending = True\<rparr>],
              timer = Some (length old), passes = ps\<rparr>
         = \<lparr>timers = old' @ [\<lparr>due = last (t0 # ts) + debounceDelay, pending = True\<rparr>],
            timer = Some (length old'),
            passes = ps @ map (\<lambda>t. t + debounceDelay) (butlast (t0 # ts))\<rparr>"
  using assms
proof (induction ts arbitrary: t0 old ps)
  case Nil
  then show ?case by auto
next
  case (Cons t ts)
  from Cons.prems have far: "t0 + debounceDelay \<le> t"
    and chain: "successively (\<lambda>a b. a + debounceDelay < b) (t # ts)"
    by simp_all
  let ?old = "old @ [\<lparr>due = t0 + debounceDelay, pending = False\<rparr>]"
  have fired: "spent ?old"
    using Cons.prems(1) by simp
  have step: "onNotification t Event
          (elapse t \<lparr>timers = old @ [\<lparr>due = t0 + debounceDelay, pending = True\<rparr>],
                     timer = Some (length old), passes = ps\<rparr>)
        = \<lparr>timers = ?old @ [\<lparr>due = t + debounceDelay, pending = True\<rparr>],
           timer = Some (length ?old), passes = ps @ [t0 + debounceDelay]\<rparr>"
    by (simp only: elapse_late [OF Cons.prems(1) far] event_step) simp
  from Cons.IH [OF fired chain, of "ps @ [t0 + debounceDelay]"] obtain old'
    where "spent old'"
      and "watchLoop (map (\<lambda>t. (t, Event)) ts)
             \<lparr>timers = ?old @ [\<lparr>due = t + debounceDelay, pending = True\<rparr>],
              timer = Some (length ?old), passes = ps @ [t0 + debounceDelay]\<rparr>
         = \<lparr>timers = old' @ [\<lparr>due = last (t # ts) + debounceDelay, pending = True\<rparr>],
            timer = Some (length old'),
            passes = (ps @ [t0 + debounceDelay]) @ map (\<lambda>t. t + debounceDelay) (butlast (t # ts))\<rparr>"
    by blast
  with step show ?case
    by auto
qed

lemma passes_burst:
  assumes "ts \<noteq> []" and "successively (\<lambda>a b. a \<le> b \<and> b < a + debounceDelay) ts"
  shows "organizePasses (map (\<lambda>t. (t, Event)) ts) = [last ts + debounceDelay]"
proof -
  from assms(1) obtain t rest where ts: "ts = t # rest"
    by (cases ts) auto
  from watchLoop_burst [of "[]" t rest "[]"] assms(2) obtain old'
    where "spent old'"
      and "watchLoop (map (\<lambda>t. (t, Event)) rest)
             \<lparr>timers = [] @ [\<lparr>due = t + debounceDelay, pending = True\<rparr>],
              timer = Some (length ([] :: Timer list)), passes = []\<rparr>
         = \<lparr>timers = old' @ [\<lparr>due = last (t # rest) + debounceDelay, pending = True\<rparr>],
            timer = Some (length old'), passes = []\<rparr>"
    by (auto simp: ts)
  then show ?thesis
    by (simp add: organizePasses_def ts first_event spent_filter del: watchLoop.simps)
qed

lemma passes_sparse:
  assumes "successively (\<lambda>a b. a + debounceDelay < b) ts"
  shows "organizePasses (map (\<lambda>t. (t, Event)) ts) = map (\<lambda>t. t + debounceDelay) ts"
proof (cases ts)
  case Nil
  then show ?thesis
    by (simp add: organizePasses_def started_def)
next
  case (Cons t rest)
  from watchLoop_sparse [of "[]" t rest "[]"] assms obtain old'
    where "spent old'"
      and "watchLoop (map (\<lambda>t. (t, Event)) rest)
             \<lparr>timers = [] @ [\<lparr>due = t + debounceDelay, pending = True\<rparr>],
              timer = Some (length ([] :: Timer list)), passes = []\<rparr>
         = \<lparr>timers = old' @ [\<lparr>due = last (t # rest) + debounceDelay, pending = True\<rparr>],
            timer = Some (length old'),
            passes = [] @ map (\<lambda>t. t + debounceDelay) (butlast (t # rest))\<rparr>"
    by (auto simp: Cons)
  moreover have "map (\<lambda>t. t + debounceDelay) (butlast (t # rest)) @ [last (t # rest) + debounceDelay]
               = map (\<lambda>t. t + debounceDelay) (t # rest)"
    by (metis (no_types, lifting) append_butlast_last_id list.distinct(1) list.simps(8) list.simps(9) map_append)
  ultimately show ?thesis
    by (simp add: organizePasses_def Cons first_event spent_filter del: watchLoop.simps)
qed

lemma oneTimer_elapse:
  assumes "oneTimer s"
  shows "oneTimer (elapse now s)"
proof -
  let ?f = "\<lambda>t. if pending t \<and> due t \<le> now then t\<lparr>pending := False\<rparr> else t"
  from assms consider "timers s = []" "timer s = None"
    | old t where "timers s = old @ [t]" "spent old" "timer s = Some (length old)"
    by (auto simp: oneTimer_def)
  then show ?thesis
  proof cases
    case 1
    then show ?thesis
      by (simp add: oneTimer_def elapse_def)
  next
    case 2
    then have "timers (elapse now s) = old @ [?f t]" "timer (elapse now s) = Some (length old)"
      by (simp_all add: elapse_def spent_map)
    with 2(2) show ?thesis
      unfolding oneTimer_def by blast
  qed
qed

lemma event_rearms:
  assumes "oneTimer s"
  shows "oneTimer (onNotification now Event s)
       \<and> filter pending (timers (onNotification now Event s))
           = [\<lparr>due = now + debounceDelay, pending = True\<rparr>]"
proof -
  from assms consider "timers s = []" "timer s = None"
    | old t where "timers s = old @ [t]" "spent old" "timer s = Some (length old)"
    by (auto simp: oneTimer_def)
  then show ?thesis
  proof cases
    case 1
    then have "timers (onNotification now Event s) = [] @ [\<lparr>due = now + debounceDelay, pending = True\<rparr>]"
      "timer (onNotification now Event s) = Some (length ([] :: Timer list))"
      by (simp_all add: onNotification_def time_AfterFunc_def)
    then show ?thesis
      unfolding oneTimer_def by (metis filter.simps append_Nil spent_simps(1) Timer.select_convs(2))
  next
    case 2
    let ?old = "old @ [t\<lparr>pending := False\<rparr>]"
    from 2 have "timers (onNotification now Event s) = ?old @ [\<lparr>due = now + debounceDelay, pending = True\<rparr>]"
      "timer (onNotification now Event s) = Some (length ?old)"
      by (simp_all add: onNotification_def timer_Stop_def time_AfterFunc_def)
    moreover from 2(2) have "spent ?old"
      by simp
    ultimately show ?thesis
      unfolding oneTimer_def by (simp add: spent_filter)
  qed
qed

lemma oneTimer_step:
  assumes "oneTimer s"
  shows "oneTimer (onNotification now n (elapse now s))"
proof (cases n)
  case Event
  with event_rearms [OF oneTimer_elapse [OF assms]] show ?thesis
    by simp
next
  case Error
  with oneTimer_elapse [OF assms] show ?thesis
    by (simp add: onNotification_def)
qed

lemma oneTimer_watchLoop:
  assumes "oneTimer s"
  shows "oneTimer (watchLoop ns s)"
  using assms
proof (induction ns arbitrary: s)
  case Nil
  then show ?case by simp
next
  case (Cons a ns)
  obtain now n where "a = (now, n)"
    by (cases a) auto
  with Cons show ?case
    by (simp add: oneTimer_step)
qed

lemma oneTimer_started: "oneTimer started"
  by (simp add: oneTimer_def started_def)

text \<open>
  C8. When every event is received less than the delay after the one before it, the
  events lead to one pass, started one delay after the last of them. When every event is
  received more than the delay after the one before it, there are as many passes as
  events, each started one delay after its event. In every state the loop reaches, an
  event leaves exactly one timer pending, the one it has just made: the timer that was
  pending has been stopped.
\<close>

theorem debounce_collapses:
  "(ts \<noteq> [] \<and> successively (\<lambda>a b. a \<le> b \<and> b < a + debounceDelay) ts \<longrightarrow>
      organizePasses (map (\<lambda>t. (t, Event)) ts) = [last ts + debounceDelay])
   \<and> (successively (\<lambda>a b. a + debounceDelay < b) ts \<longrightarrow>
      organizePasses (map (\<lambda>t. (t, Event)) ts) = map (\<lambda>t. t + debounceDelay) ts
      \<and> length (organizePasses (map (\<lambda>t. (t, Event)) ts)) = length ts)
   \<and> filter pending (timers (onNotification now Event (elapse now (watchLoop ns started))))
       = [\<lparr>due = now + debounceDelay, pending = True\<rparr>]"
  using event_rearms [OF oneTimer_elapse [OF oneTimer_watchLoop [OF oneTimer_started]], of now now ns]
  by (simp add: passes_burst passes_sparse)

theorem debounce_collapses_witness:
  "organizePasses [(0, Event), (1000000000, Event), (5999999999, Event)] = [10999999999]
   \<and> organizePasses [(0, Event), (5000000001, Event), (10000000002, Event)]
       = [5000000000, 10000000001, 15000000002]
   \<and> filter pending (timers (watchLoop [(0, Event), (1000000000, Event)] started))
       = [\<lparr>due = 6000000000, pending = True\<rparr>]"
  using debounce_collapses [of "[0, 1000000000, 5999999999]"]
    debounce_collapses [of "[0, 5000000001, 10000000002]"]
    debounce_collapses [where now = 1000000000 and ns = "[(0, Event)]"]
  by (simp add: debounceDelay_def)

end
